theory Spec2Isabelle
  imports Complex_Main "HOL-Library.Char_ord" "HOL-Library.List_Lexorder"
    "HOL-Library.Product_Lexorder" "HOL-Library.Multiset"
begin

section \<open>Errors raised by the Python code\<close>

text \<open>
  Every \<^verbatim>\<open>raise\<close>, failed \<^verbatim>\<open>assert\<close>, out-of-range index and missing column of the
  source is a value of this type. \<open>NotFinite\<close> stands for a computation whose NumPy result is \<^verbatim>\<open>inf\<close> or
  \<^verbatim>\<open>nan\<close> (division by zero, mean of nothing): NumPy only warns there, but such a
  value is not a real number, so the model stops instead of inventing one.
\<close>

datatype error = IndexError | ValueError | KeyError | AssertionError | NotFinite

section \<open>NumPy primitives used by the source\<close>

text \<open>\<^verbatim>\<open>np.diff\<close> on a one-dimensional array: successive differences.\<close>

fun diff :: "int list \<Rightarrow> int list" where
  "diff (a # b # r) = (b - a) # diff (b # r)"
| "diff _ = []"

text \<open>\<^verbatim>\<open>xbool.astype('int')\<close>.\<close>

definition astype_int :: "bool list \<Rightarrow> int list" where
  "astype_int bs = map (\<lambda>b. if b then 1 else 0) bs"

text \<open>\<^verbatim>\<open>np.where(d == v)[0]\<close>: the ascending indices at which \<open>d\<close> holds \<open>v\<close>.\<close>

definition where_eq :: "int list \<Rightarrow> int \<Rightarrow> nat list" where
  "where_eq d v = filter (\<lambda>i. d ! i = v) [0..<length d]"

text \<open>
  Python's \<^verbatim>\<open>int(r)\<close> on a float, and the cast of a float to an integer type: truncation
  towards zero.
\<close>

definition py_int :: "real \<Rightarrow> int" where
  "py_int r = (if 0 \<le> r then \<lfloor>r\<rfloor> else \<lceil>r\<rceil>)"

text \<open>
  The element type of an array, as far as the source depends on it: floats, or integers.
  \<open>astype dt vals\<close> is what an array of type \<open>dt\<close> holds after the float values \<open>vals\<close>
  are assigned to it: the values themselves, or their integer parts.
\<close>

datatype dtype = Float64 | Int64

definition astype :: "dtype \<Rightarrow> real list \<Rightarrow> real list" where
  "astype dt vals =
     (case dt of Float64 \<Rightarrow> vals | Int64 \<Rightarrow> map (\<lambda>v. real_of_int (py_int v)) vals)"

section \<open>EdgeDetector: \<^verbatim>\<open>binary_onsets\<close> (data.py 29-50, proc.py 16-36)\<close>

text \<open>
  The two copies of \<^verbatim>\<open>binary_onsets\<close> are the same code. \<^verbatim>\<open>xbool[0]\<close> on an empty
  signal raises IndexError; a length mismatch after the boundary corrections raises
  ValueError. Samples are reals: only the comparison with the threshold is used.
\<close>

definition binary_onsets :: "real list \<Rightarrow> real \<Rightarrow> error + (nat list \<times> nat list)" where
  "binary_onsets x thresh =
     (let xbool = map (\<lambda>v. v > thresh) x;
          ons = where_eq (diff (astype_int xbool)) 1;
          offs = where_eq (diff (astype_int xbool)) (- 1)
      in if xbool = [] then Inl IndexError
         else
           let offs = (if hd xbool then drop 1 offs else offs);
               ons = (if last xbool then butlast ons else ons)
           in if length ons \<noteq> length offs then Inl ValueError
              else Inr (ons, offs))"

text \<open>
  Proof device: \<open>alt a b\<close> says that \<open>a\<close> and \<open>b\<close> interleave strictly, starting with
  \<open>a\<close>: \<open>a\<^sub>0 < b\<^sub>0 < a\<^sub>1 < b\<^sub>1 < \<dots>\<close>, where \<open>a\<close> is as long as \<open>b\<close> or one longer.
\<close>

function alt :: "nat list \<Rightarrow> nat list \<Rightarrow> bool" where
  "alt [] ys = (ys = [])"
| "alt (x # xs) [] = (xs = [])"
| "alt (x # xs) (y # ys) = (x < y \<and> alt (y # ys) xs)"
  by pat_completeness auto
termination
  by (relation "measure (\<lambda>(a, b). length a + length b)") auto

text \<open>Proof device: the raw rising and falling edges of a boolean signal.\<close>

definition edges_of :: "bool list \<Rightarrow> nat list \<times> nat list" where
  "edges_of bs = (where_eq (diff (astype_int bs)) 1, where_eq (diff (astype_int bs)) (- 1))"

section \<open>Tables\<close>

text \<open>
  A pandas data frame is the list of its rows, in row order. A column that a frame may
  lack (\<^verbatim>\<open>probe\<close>, \<^verbatim>\<open>uuid\<close>, and \<^verbatim>\<open>cell_id\<close> of the metrics table) is an option:
  \<open>None\<close> is the absent column, or the \<^verbatim>\<open>NaN\<close> that \<^verbatim>\<open>pd.concat\<close> fills in for it.
  Cluster and cell identifiers are the sorter's non-negative integers. Depths and
  metric values are reals; \<^verbatim>\<open>NaN\<close> entries of those columns are outside the model.
  The two tables share the column names \<^verbatim>\<open>cluster_id\<close>, \<^verbatim>\<open>depth\<close>, \<^verbatim>\<open>probe\<close>, \<^verbatim>\<open>uuid\<close> and
  \<^verbatim>\<open>cell_id\<close>; the fields of a metrics row carry the prefix \<open>m_\<close> to keep them apart.
\<close>

record spike_row =
  ts :: real
  cluster_id :: nat
  cell_id :: nat
  depth :: real
  probe :: "string option"
  uuid :: "nat option"

record metrics_row =
  m_cluster_id :: nat
  isi_viol :: real
  amplitude_cutoff :: real
  presence_ratio :: real
  m_depth :: real
  m_probe :: "string option"
  m_uuid :: "nat option"
  m_cell_id :: "nat option"

text \<open>
  A row of the spikes table as \<^verbatim>\<open>get_concatenated_spikes\<close> builds it (\<^verbatim>\<open>cell_id\<close> is the
  sorter's cluster index, no \<^verbatim>\<open>probe\<close> or \<^verbatim>\<open>uuid\<close> column yet), and a row of the metrics
  table with its three quality metrics and its depth.
\<close>

definition spike :: "real \<Rightarrow> nat \<Rightarrow> real \<Rightarrow> spike_row" where
  "spike time c d =
     \<lparr>ts = time, cluster_id = c, cell_id = c, depth = d, probe = None, uuid = None\<rparr>"

definition metric :: "nat \<Rightarrow> real \<Rightarrow> real \<Rightarrow> real \<Rightarrow> real \<Rightarrow> metrics_row" where
  "metric c isi amp pr d =
     \<lparr>m_cluster_id = c, isi_viol = isi, amplitude_cutoff = amp, presence_ratio = pr,
      m_depth = d, m_probe = None, m_uuid = None, m_cell_id = None\<rparr>"

section \<open>QualityFilter (data.py 293-339)\<close>

text \<open>
  \<^verbatim>\<open>filter_by_metric\<close>: the query expression is a predicate on a metrics row;
  \<^verbatim>\<open>clu_list\<close> is the \<^verbatim>\<open>cluster_id\<close> column of the rows that satisfy it, and both frames
  keep the rows whose \<^verbatim>\<open>cluster_id\<close> is in that list (\<^verbatim>\<open>isin\<close>).
\<close>

definition filter_by_metric ::
  "spike_row list \<Rightarrow> metrics_row list \<Rightarrow> (metrics_row \<Rightarrow> bool) \<Rightarrow>
     spike_row list \<times> metrics_row list" where
  "filter_by_metric spikes metrics expression =
     (let clu_list = map m_cluster_id (filter expression metrics);
          spikes = filter (\<lambda>r. cluster_id r \<in> set clu_list) spikes;
          metrics = filter (\<lambda>m. m_cluster_id m \<in> set clu_list) metrics
      in (spikes, metrics))"

text \<open>
  \<^verbatim>\<open>spikes.groupby('cluster_id').count()['ts']\<close>: one entry per cluster that occurs in
  the spikes table, in ascending order of the key, with its number of rows.
\<close>

definition groupby_count :: "spike_row list \<Rightarrow> (nat \<times> nat) list" where
  "groupby_count spikes =
     map (\<lambda>c. (c, length (filter (\<lambda>r. cluster_id r = c) spikes)))
       (sort (remdups (map cluster_id spikes)))"

text \<open>
  \<^verbatim>\<open>filter_by_spikerate\<close>: the mask holds the clusters with strictly more than
  \<^verbatim>\<open>thresh\<close> spikes (\<^verbatim>\<open>n_spikes > thresh\<close>). The source also restricts its local
  \<^verbatim>\<open>metrics\<close> to the mask, but returns \<^verbatim>\<open>spikes2\<close> alone: the restricted metrics
  frame is dropped.
\<close>

definition filter_by_spikerate ::
  "spike_row list \<Rightarrow> metrics_row list \<Rightarrow> nat \<Rightarrow> spike_row list" where
  "filter_by_spikerate spikes metrics thresh =
     (let n_spikes = groupby_count spikes;
          mask = map fst (filter (\<lambda>(c, n). n > thresh) n_spikes);
          spikes2 = filter (\<lambda>r. cluster_id r \<in> set mask) spikes;
          metrics = filter (\<lambda>m. m_cluster_id m \<in> set mask) metrics
      in spikes2)"

definition filter_default_metrics ::
  "spike_row list \<Rightarrow> metrics_row list \<Rightarrow> spike_row list \<times> metrics_row list" where
  "filter_default_metrics spikes metrics =
     (let spikes = filter_by_spikerate spikes metrics 100;
          (spikes, metrics) = filter_by_metric spikes metrics (\<lambda>m. isi_viol m < 2);
          (spikes, metrics) = filter_by_metric spikes metrics (\<lambda>m. amplitude_cutoff m < 1 / 10);
          (spikes, metrics) = filter_by_metric spikes metrics (\<lambda>m. presence_ratio m > 9 / 10)
      in (spikes, metrics))"

text \<open>Proof device: the clusters of a metrics table with a row that satisfies \<open>e\<close>.\<close>

definition passing :: "metrics_row list \<Rightarrow> (metrics_row \<Rightarrow> bool) \<Rightarrow> nat set" where
  "passing metrics e = m_cluster_id ` {m \<in> set metrics. e m}"

text \<open>
  Proof device: the clusters that the three metric steps of the default policy keep.
\<close>

definition kept :: "metrics_row list \<Rightarrow> nat set" where
  "kept metrics = passing metrics (\<lambda>m. isi_viol m < 2) \<inter>
     passing metrics (\<lambda>m. amplitude_cutoff m < 1 / 10) \<inter>
     passing metrics (\<lambda>m. presence_ratio m > 9 / 10)"

text \<open>Proof device: the number of spikes of cluster \<open>c\<close>.\<close>

definition n_spikes_of :: "spike_row list \<Rightarrow> nat \<Rightarrow> nat" where
  "n_spikes_of spikes c = length (filter (\<lambda>r. cluster_id r = c) spikes)"

section \<open>SpikeTableBuilder: \<^verbatim>\<open>resort_by_depth\<close> (data.py 342-357)\<close>

text \<open>
  \<^verbatim>\<open>spikes[['cluster_id','depth']].groupby('cluster_id').mean()\<close>: one row per cluster
  of the spikes table, in ascending order of \<^verbatim>\<open>cluster_id\<close>, with the mean of its depths.
\<close>

definition groupby_mean_depth :: "spike_row list \<Rightarrow> (nat \<times> real) list" where
  "groupby_mean_depth spikes =
     map (\<lambda>c. (c, sum_list (map depth (filter (\<lambda>r. cluster_id r = c) spikes))
                    / real (length (filter (\<lambda>r. cluster_id r = c) spikes))))
       (sort (remdups (map cluster_id spikes)))"

text \<open>
  \<^verbatim>\<open>reset_index()\<close> on a frame: the old index becomes a column and the rows get the
  fresh index \<open>0, 1, \<dots>\<close>. A row of the result is (old index, rest of the row); the new
  index is the row's position in the list.
\<close>

definition reset_index :: "'a list \<Rightarrow> (nat \<times> 'a) list" where
  "reset_index rows = zip [0..<length rows] rows"

text \<open>
  \<^verbatim>\<open>spikes.merge(dd, on='cluster_id')\<close>, an inner join in the order of the left keys;
  \<open>dd\<close> has the columns \<^verbatim>\<open>cell_id\<close> and \<^verbatim>\<open>cluster_id\<close>, and the spikes table has lost
  its own \<^verbatim>\<open>cell_id\<close> column before.
\<close>

definition merge_cell_id :: "spike_row list \<Rightarrow> (nat \<times> nat) list \<Rightarrow> spike_row list" where
  "merge_cell_id spikes dd =
     concat (map (\<lambda>r. map (\<lambda>(cell, c). r\<lparr>cell_id := cell\<rparr>)
                        (filter (\<lambda>(cell, c). c = cluster_id r) dd)) spikes)"

text \<open>
  The steps of the source, line by line. After \<^verbatim>\<open>groupby(...).mean()\<close> the first
  \<^verbatim>\<open>reset_index()\<close> turns the key into the column \<^verbatim>\<open>cluster_id\<close>; the old index (the
  cluster id) is that column, so the rows are only numbered. \<^verbatim>\<open>sort_values('depth')\<close>
  reorders the rows, each keeping its index label. The second \<^verbatim>\<open>reset_index()\<close> has no
  \<^verbatim>\<open>drop=True\<close>: it moves those labels into a column \<^verbatim>\<open>index\<close>, which is renamed
  \<^verbatim>\<open>cell_id\<close>. (\<^verbatim>\<open>sort_values\<close> is modelled by a stable sort; the order of ties is
  not fixed by pandas' default quicksort.)
\<close>

definition resort_by_depth :: "spike_row list \<Rightarrow> spike_row list" where
  "resort_by_depth spikes =
     (let dd = groupby_mean_depth spikes;
          dd = map (\<lambda>(i, c, d). (i, c, d)) (reset_index dd);
          dd = sort_key (\<lambda>(i, c, d). d) dd;
          dd = map (\<lambda>(new, i, c, d). (i, c, d)) (reset_index dd);
          dd = map (\<lambda>(i, c, d). (i, c)) dd
      in merge_cell_id spikes dd)"

section \<open>SpikeTableBuilder: \<^verbatim>\<open>concatenate_probes\<close> (data.py 374-395)\<close>

text \<open>
  \<^verbatim>\<open>uuid.uuid4()\<close> draws a random identifier. The generator is modelled as a counter,
  threaded through the calls: each call returns the counter and increments it, so no
  value is ever drawn twice (an idealisation of the 122 random bits).
\<close>

definition uuid4 :: "nat \<Rightarrow> nat \<times> nat" where
  "uuid4 u = (u, Suc u)"

text \<open>\<^verbatim>\<open>[uuid.uuid4() for _ in range(len(metrics.index))]\<close> assigned as the column \<^verbatim>\<open>uuid\<close>.\<close>

fun assign_uuids :: "nat \<Rightarrow> metrics_row list \<Rightarrow> metrics_row list \<times> nat" where
  "assign_uuids u [] = ([], u)"
| "assign_uuids u (m # ms) =
     (let (v, u') = uuid4 u; (ms', u'') = assign_uuids u' ms
      in (m\<lparr>m_uuid := Some v\<rparr> # ms', u''))"

text \<open>\<^verbatim>\<open>spikes.merge(metrics[['cluster_id', 'uuid']], on='cluster_id')\<close>, an inner join.\<close>

definition merge_uuid :: "spike_row list \<Rightarrow> metrics_row list \<Rightarrow> spike_row list" where
  "merge_uuid spikes metrics =
     concat (map (\<lambda>r. map (\<lambda>m. r\<lparr>uuid := m_uuid m\<rparr>)
                        (filter (\<lambda>m. m_cluster_id m = cluster_id r) metrics)) spikes)"

text \<open>
  The loop \<^verbatim>\<open>for ii in range(n_probes)\<close>, which updates both lists in place. The state
  is the two lists and the uuid counter. \<^verbatim>\<open>spikes_list[ii]\<close> or \<^verbatim>\<open>metrics_list[ii]\<close> out
  of range raises IndexError.
\<close>

fun tag_probes ::
  "nat list \<Rightarrow> string list \<Rightarrow> spike_row list list \<times> metrics_row list list \<times> nat \<Rightarrow>
     error + (spike_row list list \<times> metrics_row list list \<times> nat)" where
  "tag_probes [] labels st = Inr st"
| "tag_probes (ii # iis) labels (spikes_list, metrics_list, u) =
     (if length spikes_list \<le> ii \<or> length metrics_list \<le> ii then Inl IndexError
      else
        let s = map (\<lambda>r. r\<lparr>probe := Some (labels ! ii)\<rparr>) (spikes_list ! ii);
            m = map (\<lambda>m. m\<lparr>m_probe := Some (labels ! ii)\<rparr>) (metrics_list ! ii);
            (m, u') = assign_uuids u m;
            s = merge_uuid s m
        in tag_probes iis labels (spikes_list[ii := s], metrics_list[ii := m], u'))"




text \<open>
  The sort key of \<^verbatim>\<open>sort_values(['probe', 'depth'])\<close>: the probe label first (strings in
  lexicographic order of their characters, a missing label last), then the depth.
\<close>

definition probe_depth_key :: "metrics_row \<Rightarrow> (nat \<times> string) \<times> real" where
  "probe_depth_key m =
     ((case m_probe m of None \<Rightarrow> (1, []) | Some l \<Rightarrow> (0, l)), m_depth m)"

text \<open>
  \<^verbatim>\<open>spikes.drop('cell_id').merge(metrics[['uuid', 'cell_id']], on='uuid')\<close>, an inner
  join; the metrics rows come with their new index, which is the column \<^verbatim>\<open>cell_id\<close>.
\<close>

definition merge_on_uuid :: "spike_row list \<Rightarrow> (nat \<times> metrics_row) list \<Rightarrow> spike_row list" where
  "merge_on_uuid spikes metrics =
     concat (map (\<lambda>r. map (\<lambda>(cell, m). r\<lparr>cell_id := cell\<rparr>)
                        (filter (\<lambda>(cell, m). m_uuid m = uuid r) metrics)) spikes)"

text \<open>
  \<^verbatim>\<open>concatenate_probes\<close>; \<open>u\<close> is the state of the uuid generator when it is called. The
  input frames are as \<^verbatim>\<open>load_filtered_spikes\<close> returns them, without a \<^verbatim>\<open>probe\<close> or \<^verbatim>\<open>uuid\<close>
  column. \<^verbatim>\<open>pd.concat\<close> of an empty list raises ValueError. With no label no frame has
  got a \<^verbatim>\<open>probe\<close> column, and \<^verbatim>\<open>sort_values(['probe', 'depth'])\<close> raises KeyError. Otherwise
  the metrics are sorted by \<^verbatim>\<open>['probe', 'depth']\<close>, the index is dropped
  (\<^verbatim>\<open>reset_index(drop=True)\<close>) and the fresh index becomes \<^verbatim>\<open>cell_id\<close>; the spikes get
  their \<^verbatim>\<open>cell_id\<close> by the join on \<^verbatim>\<open>uuid\<close> and are sorted by \<^verbatim>\<open>ts\<close>.
\<close>

definition concatenate_probes ::
  "spike_row list list \<Rightarrow> metrics_row list list \<Rightarrow> string list \<Rightarrow> nat \<Rightarrow>
     error + (spike_row list \<times> metrics_row list)" where
  "concatenate_probes spikes_list metrics_list labels u =
     (let n_probes = length labels
      in case tag_probes [0..<n_probes] labels (spikes_list, metrics_list, u) of
           Inl e \<Rightarrow> Inl e
         | Inr (spikes_list, metrics_list, u') \<Rightarrow>
            (if spikes_list = [] then Inl ValueError
             else if metrics_list = [] then Inl ValueError
             else if n_probes = 0 then Inl KeyError
             else
               let spikes = concat spikes_list;
                   metrics = reset_index (sort_key probe_depth_key (concat metrics_list));
                   spikes = sort_key ts (merge_on_uuid spikes metrics);
                   metrics = map (\<lambda>(cell, m). m\<lparr>m_cell_id := Some cell\<rparr>) metrics
               in Inr (spikes, metrics)))"



section \<open>ClockAligner: \<^verbatim>\<open>get_tvec\<close> (data.py 109-140)\<close>

text \<open>
  \<^verbatim>\<open>np.linspace(a, b, num)\<close>: \<open>num\<close> evenly spaced values from \<open>a\<close> to \<open>b\<close>, both ends
  included; a single value is \<open>a\<close>.
\<close>

definition linspace :: "real \<Rightarrow> real \<Rightarrow> nat \<Rightarrow> real list" where
  "linspace a b num =
     (if num = 1 then [a]
      else map (\<lambda>i. a + real i * ((b - a) / real (num - 1))) [0..<num])"

text \<open>
  The slice assignment \<^verbatim>\<open>v[a:b] = vals\<close>. The bounds are clipped to the array as NumPy
  does; a value array of another length than the slice is broadcast when it has one
  element and raises ValueError otherwise.
\<close>

definition set_slice :: "real list \<Rightarrow> nat \<Rightarrow> nat \<Rightarrow> real list \<Rightarrow> error + real list" where
  "set_slice v a b vals =
     (let a' = min a (length v);
          b' = max a' (min b (length v))
      in if length vals = b' - a' then Inr (take a' v @ vals @ drop b' v)
         else if length vals = 1 then Inr (take a' v @ replicate (b' - a') (hd vals) @ drop b' v)
         else Inl ValueError)"

text \<open>
  The loop \<^verbatim>\<open>for ii in range(len(onsets) - 1)\<close>, which fills \<open>tvec\<close> between
  consecutive onsets; \<open>dt\<close> is the element type of \<open>tvec\<close>, to which every assigned
  value is cast. A negative \<^verbatim>\<open>nsamps\<close> makes \<^verbatim>\<open>np.linspace\<close> raise ValueError.
\<close>

fun interp_loop ::
  "dtype \<Rightarrow> nat list \<Rightarrow> real list \<Rightarrow> nat list \<Rightarrow> real list \<Rightarrow> error + real list" where
  "interp_loop dt onsets sync_timestamps [] tvec = Inr tvec"
| "interp_loop dt onsets sync_timestamps (ii # iis) tvec =
     (if onsets ! (ii + 1) < onsets ! ii then Inl ValueError
      else
        let nsamps = onsets ! (ii + 1) - onsets ! ii;
            temp = linspace (sync_timestamps ! ii) (sync_timestamps ! (ii + 1)) nsamps
        in (case set_slice tvec (onsets ! ii) (onsets ! (ii + 1)) (astype dt temp) of
              Inl e \<Rightarrow> Inl e
            | Inr tvec \<Rightarrow> interp_loop dt onsets sync_timestamps iis tvec))"

text \<open>
  \<^verbatim>\<open>get_tvec\<close>. The signal \<open>x_sync\<close> is an array of element type \<open>dt\<close> (its values are
  given as reals either way). \<^verbatim>\<open>np.empty_like(x_sync)\<close> is an uninitialised array of the
  signal's shape and of its element type: its contents are the parameter \<open>garbage\<close>, cut
  or padded to the signal's length, as values of type \<open>dt\<close>, and every time written to it
  is cast to \<open>dt\<close>. The detection threshold is the constant 1. With no onset and no
  timestamp, \<^verbatim>\<open>sync_timestamps[0]\<close> raises IndexError. A zero sample rate gives infinite
  times (\<open>NotFinite\<close>).
\<close>

definition empty_like :: "dtype \<Rightarrow> real list \<Rightarrow> real list \<Rightarrow> real list" where
  "empty_like dt garbage x = astype dt (take (length x) (garbage @ replicate (length x) 0))"

definition get_tvec ::
  "dtype \<Rightarrow> real list \<Rightarrow> real list \<Rightarrow> real list \<Rightarrow> real \<Rightarrow> error + real list" where
  "get_tvec dt garbage x_sync sync_timestamps sr =
     (let tvec = empty_like dt garbage x_sync
      in case binary_onsets x_sync 1 of
           Inl e \<Rightarrow> Inl e
         | Inr (onsets, offsets) \<Rightarrow>
            (let n_ons = length onsets;
                 n_ts = length sync_timestamps
             in if n_ons \<noteq> n_ts then Inl ValueError
                else
                 (case interp_loop dt onsets sync_timestamps [0..<length onsets - 1] tvec of
                    Inl e \<Rightarrow> Inl e
                  | Inr tvec \<Rightarrow>
                     (if sync_timestamps = [] then Inl IndexError
                      else if sr = 0 then Inl NotFinite
                      else
                        let first_t = sync_timestamps ! 0 - real (onsets ! 0) / sr;
                            first_seg = linspace first_t (sync_timestamps ! 0) (onsets ! 0)
                        in (case set_slice tvec 0 (onsets ! 0) (astype dt first_seg) of
                              Inl e \<Rightarrow> Inl e
                            | Inr tvec \<Rightarrow>
                               (let last_seg_length = length x_sync - last onsets;
                                    last_seg = linspace (last sync_timestamps)
                                      (last sync_timestamps + real last_seg_length / sr)
                                      last_seg_length
                                in set_slice tvec (last onsets) (length tvec)
                                     (astype dt last_seg)))))))"

text \<open>Proof device: the interpolated segments between the first \<open>k + 1\<close> onsets, in a row.\<close>

definition segs :: "nat list \<Rightarrow> real list \<Rightarrow> nat \<Rightarrow> real list" where
  "segs onsets sync_timestamps k =
     concat (map (\<lambda>i. linspace (sync_timestamps ! i) (sync_timestamps ! (i + 1))
                         (onsets ! (i + 1) - onsets ! i)) [0..<k])"

section \<open>TemporalAnalytics: \<^verbatim>\<open>remap_time_basis\<close> (proc.py 113-126)\<close>

text \<open>
  \<^verbatim>\<open>np.searchsorted(a, v)\<close> with the default \<^verbatim>\<open>side='left'\<close>, by NumPy's documented
  contract for an ascending \<open>a\<close>: the first index \<open>i\<close> with \<open>v \<le> a[i]\<close>, that is, the
  number of leading elements below \<open>v\<close>. (For an unsorted \<open>a\<close> NumPy's result depends
  on its binary search; the model is only used on ascending arrays.)
\<close>

definition searchsorted :: "real list \<Rightarrow> real \<Rightarrow> nat" where
  "searchsorted a v = length (takeWhile (\<lambda>e. e < v) a)"

text \<open>
  \<^verbatim>\<open>x[idx]\<close> for an integer index array: a negative index counts from the end, an index
  outside \<open>[-n, n)\<close> raises IndexError.
\<close>

definition take_idx :: "'a list \<Rightarrow> int list \<Rightarrow> error + 'a list" where
  "take_idx x idx =
     (let n = int (length x)
      in if list_all (\<lambda>i. - n \<le> i \<and> i < n) idx
         then Inr (map (\<lambda>i. x ! nat (if i < 0 then n + i else i)) idx)
         else Inl IndexError)"

definition remap_time_basis :: "'a list \<Rightarrow> real list \<Rightarrow> real list \<Rightarrow> error + 'a list" where
  "remap_time_basis x x_t y_t =
     (if length x \<noteq> length x_t then Inl AssertionError
      else
        let idx = map (\<lambda>v. int (searchsorted x_t v) - 1) y_t
        in take_idx x idx)"

section \<open>TemporalAnalytics: \<^verbatim>\<open>bin_trains\<close> (proc.py 39-67)\<close>

text \<open>
  \<^verbatim>\<open>np.arange(start, stop, step)\<close> on floats: \<open>\<lceil>(stop - start) / step\<rceil>\<close> values
  \<open>start + k * step\<close> (none when that count is negative). A zero step raises.
\<close>

definition arange :: "real \<Rightarrow> real \<Rightarrow> real \<Rightarrow> error + real list" where
  "arange start stop step =
     (if step = 0 then Inl ValueError
      else Inr (map (\<lambda>k. start + real k * step) [0..<nat \<lceil>(stop - start) / step\<rceil>]))"

text \<open>
  \<^verbatim>\<open>np.histogram(a, bins)[0]\<close> for an array of bin edges: one count per pair of
  consecutive edges. Every bin is half-open \<open>[e\<^sub>k, e\<^sub>k\<^sub>+\<^sub>1)\<close> but the last, which is closed
  (\<open>bin_count\<close> is the count of bin \<open>k\<close>). Edges that do not ascend raise ValueError.
\<close>

definition bin_count :: "real list \<Rightarrow> real list \<Rightarrow> nat \<Rightarrow> nat" where
  "bin_count bins a k =
     length (filter (\<lambda>t. bins ! k \<le> t \<and>
               (if Suc k = length bins - 1 then t \<le> bins ! Suc k else t < bins ! Suc k)) a)"

definition histogram :: "real list \<Rightarrow> real list \<Rightarrow> error + nat list" where
  "histogram a bins =
     (if \<not> sorted bins then Inl ValueError
      else Inr (map (bin_count bins a) [0..<length bins - 1]))"

text \<open>
  \<^verbatim>\<open>np.empty([n, m])\<close>: an uninitialised matrix; \<open>garbage i k\<close> is whatever the memory
  holds at row \<open>i\<close>, column \<open>k\<close>.
\<close>

definition np_empty :: "(nat \<Rightarrow> nat \<Rightarrow> real) \<Rightarrow> nat \<Rightarrow> nat \<Rightarrow> real list list" where
  "np_empty garbage n m = map (\<lambda>i. map (garbage i) [0..<m]) [0..<n]"

text \<open>
  The loop \<^verbatim>\<open>for cell in cell_id\<close>: \<^verbatim>\<open>raster[cell, :-1] = np.histogram(cell_ts, bins)[0]\<close>
  writes all of row \<open>cell\<close> but its last entry. \<open>sp\<close> holds the (time, cell index) pairs
  that passed the two time filters.
\<close>

fun fill_raster ::
  "(real \<times> nat) list \<Rightarrow> real list \<Rightarrow> nat list \<Rightarrow> real list list \<Rightarrow> error + real list list" where
  "fill_raster sp bins [] raster = Inr raster"
| "fill_raster sp bins (cell # cells) raster =
     (let cell_ts = map fst (filter (\<lambda>(t, i). i = cell) sp)
      in case histogram cell_ts bins of
           Inl e \<Rightarrow> Inl e
         | Inr h \<Rightarrow>
            (let row = raster ! cell;
                 row = map real h @ drop (length row - 1) row
             in fill_raster sp bins cells (raster[cell := row])))"

text \<open>
  \<^verbatim>\<open>bin_trains\<close>; \<open>ts'\<close> is the source's \<^verbatim>\<open>ts\<close> and \<open>cells\<close> its \<^verbatim>\<open>cell_id\<close> (both
  names are columns of the spikes table here); \<open>max_time\<close> is \<open>None\<close> for the default. \<^verbatim>\<open>np.max\<close> of an empty array
  raises ValueError; a boolean mask of another length than the array it indexes raises
  IndexError. The two filters are strict: \<^verbatim>\<open>ts>start_time\<close> and \<^verbatim>\<open>ts<max_time\<close>.
\<close>

definition bin_trains ::
  "(nat \<Rightarrow> nat \<Rightarrow> real) \<Rightarrow> real list \<Rightarrow> nat list \<Rightarrow> real option \<Rightarrow> real \<Rightarrow> real \<Rightarrow>
     error + (real list list \<times> nat list \<times> real list)" where
  "bin_trains garbage ts' idx max_time binsize start_time =
     (if max_time = None \<and> ts' = [] then Inl ValueError
      else
        let max_time = (case max_time of None \<Rightarrow> Max (set ts') | Some m \<Rightarrow> m)
        in if idx = [] then Inl ValueError
           else
             let n_neurons = Max (set idx) + 1;
                 cells = [0..<n_neurons]
             in (case arange start_time max_time binsize of
                   Inl e \<Rightarrow> Inl e
                 | Inr bins \<Rightarrow>
                    (let raster = np_empty garbage n_neurons (length bins)
                     in if length idx \<noteq> length ts' then Inl IndexError
                        else
                          let sp = filter (\<lambda>(t, i). t > start_time) (zip ts' idx);
                              sp = filter (\<lambda>(t, i). t < max_time) sp
                          in (case fill_raster sp bins cells raster of
                                Inl e \<Rightarrow> Inl e
                              | Inr raster \<Rightarrow> Inr (raster, cells, bins)))))"

section \<open>TemporalAnalytics: \<^verbatim>\<open>get_eta\<close> (proc.py 144-184)\<close>

text \<open>
  The slice \<^verbatim>\<open>x[a:b]\<close> for \<open>0 \<le> a\<close> and \<open>0 \<le> b\<close> (the loop below skips the other
  cases before it slices).
\<close>

definition slice :: "'a list \<Rightarrow> int \<Rightarrow> int \<Rightarrow> 'a list" where
  "slice x a b = take (nat b - nat a) (drop (nat a) x)"

text \<open>
  The loop \<^verbatim>\<open>for ii,samp in enumerate(samps)\<close>. The snippet matrix is the list of its
  columns, one per event. An event whose window leaves the signal is skipped
  (\<^verbatim>\<open>continue\<close>): its column is not written. A snippet of another length than the
  column raises ValueError.
\<close>

fun eta_loop ::
  "real list \<Rightarrow> int \<Rightarrow> int \<Rightarrow> (nat \<times> nat) list \<Rightarrow> real list list \<Rightarrow> error + real list list" where
  "eta_loop x win_samps_pre win_samps_post [] spike_triggered = Inr spike_triggered"
| "eta_loop x win_samps_pre win_samps_post ((ii, samp) # rest) spike_triggered =
     (if int samp - win_samps_pre < 0 then
        eta_loop x win_samps_pre win_samps_post rest spike_triggered
      else if int samp + win_samps_post > int (length x) then
        eta_loop x win_samps_pre win_samps_post rest spike_triggered
      else
        let snip = slice x (int samp - win_samps_pre) (int samp + win_samps_post)
        in if length snip \<noteq> length (spike_triggered ! ii) then Inl ValueError
           else eta_loop x win_samps_pre win_samps_post rest (spike_triggered[ii := snip]))"

text \<open>
  \<^verbatim>\<open>np.nanmean(m, 1)\<close> and \<^verbatim>\<open>np.nanstd(m, 1)\<close> of a matrix given by its columns, with
  \<open>rows\<close> rows: per row, over all columns. The entries are reals, so nothing is a
  \<^verbatim>\<open>NaN\<close> to leave out.
\<close>

definition nanmean :: "nat \<Rightarrow> real list list \<Rightarrow> real list" where
  "nanmean rows cols =
     map (\<lambda>r. sum_list (map (\<lambda>c. c ! r) cols) / real (length cols)) [0..<rows]"

definition nanstd :: "nat \<Rightarrow> real list list \<Rightarrow> real list" where
  "nanstd rows cols =
     map (\<lambda>r. sqrt (sum_list (map (\<lambda>c. (c ! r - nanmean rows cols ! r)\<^sup>2) cols)
                     / real (length cols))) [0..<rows]"

text \<open>The returned dictionary, with its keys \<^verbatim>\<open>mean, sem, std, t, lb, ub\<close>.\<close>

record eta =
  eta_mean :: "real list"
  eta_sem :: "real list"
  eta_std :: "real list"
  eta_t :: "real list"
  eta_lb :: "real list"
  eta_ub :: "real list"

text \<open>
  The snippet matrix of \<^verbatim>\<open>get_eta\<close> (its local \<^verbatim>\<open>spike_triggered\<close> after the loop).
  \<^verbatim>\<open>tvec[1]\<close> on a shorter vector raises IndexError; a zero \<open>dt\<close> gives infinite
  window sizes; \<^verbatim>\<open>np.zeros\<close> with a negative dimension raises ValueError.
\<close>

definition spike_triggered_of ::
  "real list \<Rightarrow> real list \<Rightarrow> real list \<Rightarrow> real \<Rightarrow> real option \<Rightarrow>
     error + (nat \<times> real list list)" where
  "spike_triggered_of x tvec ts' pre_win post_win =
     (if length tvec \<noteq> length x then Inl AssertionError
      else
        let post_win = (case post_win of None \<Rightarrow> pre_win | Some p \<Rightarrow> p)
        in if length tvec < 2 then Inl IndexError
           else
             let dt = tvec ! 1 - tvec ! 0
             in if dt = 0 then Inl NotFinite
                else
                  let samps = map (searchsorted tvec) ts';
                      win_samps_pre = py_int (pre_win / dt);
                      win_samps_post = py_int (post_win / dt)
                  in if win_samps_pre + win_samps_post < 0 then Inl ValueError
                     else
                       let rows = nat (win_samps_pre + win_samps_post);
                           spike_triggered = replicate (length samps) (replicate rows 0)
                       in (case eta_loop x win_samps_pre win_samps_post
                                  (zip [0..<length samps] samps) spike_triggered of
                             Inl e \<Rightarrow> Inl e
                           | Inr spike_triggered \<Rightarrow> Inr (rows, spike_triggered)))"

text \<open>
  \<^verbatim>\<open>get_eta\<close>: the statistics over the columns of the snippet matrix. With no event
  the means are \<^verbatim>\<open>nan\<close> (\<open>NotFinite\<close>).
\<close>

definition get_eta ::
  "real list \<Rightarrow> real list \<Rightarrow> real list \<Rightarrow> real \<Rightarrow> real option \<Rightarrow> error + eta" where
  "get_eta x tvec ts' pre_win post_win =
     (case spike_triggered_of x tvec ts' pre_win post_win of
        Inl e \<Rightarrow> Inl e
      | Inr (rows, spike_triggered) \<Rightarrow>
         (if ts' = [] then Inl NotFinite
          else
            let samps = map (searchsorted tvec) ts';
                st_average = nanmean rows spike_triggered;
                st_sem = map (\<lambda>s. s / sqrt (real (length samps))) (nanstd rows spike_triggered);
                st_std = nanstd rows spike_triggered;
                win_t = linspace (- pre_win)
                          (case post_win of None \<Rightarrow> pre_win | Some p \<Rightarrow> p) rows;
                lb = map (\<lambda>(m, s). m - s) (zip st_average st_sem);
                ub = map (\<lambda>(m, s). m + s) (zip st_average st_sem)
            in Inr \<lparr>eta_mean = st_average, eta_sem = st_sem, eta_std = st_std,
                      eta_t = win_t, eta_lb = lb, eta_ub = ub\<rparr>))"

text \<open>
  Proof devices: the window sizes in samples that \<^verbatim>\<open>get_eta\<close> computes; whether the
  window of the event at time \<open>ev\<close> leaves the signal (the two \<^verbatim>\<open>continue\<close> tests); and
  the column that the loop leaves for an event at sample \<open>samp\<close>.
\<close>

definition win_samps :: "real list \<Rightarrow> real \<Rightarrow> int" where
  "win_samps tvec win = py_int (win / (tvec ! 1 - tvec ! 0))"

definition off_signal :: "real list \<Rightarrow> int \<Rightarrow> int \<Rightarrow> nat \<Rightarrow> bool" where
  "off_signal x win_samps_pre win_samps_post samp =
     (int samp - win_samps_pre < 0 \<or> int samp + win_samps_post > int (length x))"

definition snippet :: "real list \<Rightarrow> int \<Rightarrow> int \<Rightarrow> nat \<Rightarrow> real list" where
  "snippet x win_samps_pre win_samps_post samp =
     (if off_signal x win_samps_pre win_samps_post samp
      then replicate (nat (win_samps_pre + win_samps_post)) 0
      else slice x (int samp - win_samps_pre) (int samp + win_samps_post))"

section \<open>Facts about the NumPy primitives\<close>

lemma upt_0_Suc_map: "[0..<Suc n] = 0 # map Suc [0..<n]"
  by (simp add: upt_conv_Cons map_Suc_upt del: upt_Suc)

lemma where_eq_Cons:
  "where_eq (a # d) v = (if a = v then [0] else []) @ map Suc (where_eq d v)"
  unfolding where_eq_def
  by (simp add: upt_0_Suc_map filter_map o_def del: upt_Suc)

lemma length_diff: "length (diff xs) = length xs - 1"
  by (induction xs rule: diff.induct) auto

lemma where_eq_sorted: "sorted_wrt (<) (where_eq d v)"
  unfolding where_eq_def by (rule sorted_wrt_filter) simp

lemma where_eq_bound: "i \<in> set (where_eq d v) \<Longrightarrow> i < length d"
  unfolding where_eq_def by simp

lemma filter_eq_upt: "filter (\<lambda>i. i = i0) [0..<n] = (if i0 < n then [i0] else [])"
  by (induction n) auto

lemma zip_upt_map: "zip [0..<length ks] (map h ks) = map (\<lambda>i. (i, h (ks ! i))) [0..<length ks]"
  by (rule nth_equalityI) simp_all

section \<open>EdgeDetector: onsets and offsets alternate\<close>

lemma alt_map_Suc: "alt (map Suc a) (map Suc b) = alt a b"
  by (induction a b rule: alt.induct) auto

lemma alt_Cons: "alt b a \<Longrightarrow> (\<forall>y\<in>set b. x < y) \<Longrightarrow> alt (x # a) b"
  by (cases b) auto

lemma alt_nth:
  "alt a b \<Longrightarrow> length b \<le> length a \<and> length a \<le> Suc (length b) \<and>
     (\<forall>i<length b. a ! i < b ! i) \<and> (\<forall>i. Suc i < length a \<longrightarrow> b ! i < a ! Suc i)"
proof (induction a b rule: alt.induct)
  case (3 x xs y ys)
  then have ih: "length xs \<le> Suc (length ys)" "length ys \<le> length xs"
    "\<forall>i<length xs. (y # ys) ! i < xs ! i"
    "\<forall>i. Suc i < Suc (length ys) \<longrightarrow> xs ! i < ys ! i" and xy: "x < y"
    by auto
  have a: "\<forall>i<length (y # ys). (x # xs) ! i < (y # ys) ! i"
  proof (intro allI impI)
    fix i assume "i < length (y # ys)"
    then show "(x # xs) ! i < (y # ys) ! i"
      using xy ih(4) by (cases i) auto
  qed
  have b: "\<forall>i. Suc i < length (x # xs) \<longrightarrow> (y # ys) ! i < (x # xs) ! Suc i"
    using ih(3) by auto
  show ?case using a b ih(1,2) by simp
qed auto

text \<open>
  The edges of a non-empty boolean signal alternate, starting with an offset when the
  signal starts high and with an onset otherwise; the two counts differ by the
  difference of the signal's last and first value.
\<close>

lemma edges_alt:
  "bs \<noteq> [] \<Longrightarrow>
     (if hd bs then alt (snd (edges_of bs)) (fst (edges_of bs))
      else alt (fst (edges_of bs)) (snd (edges_of bs))) \<and>
     length (fst (edges_of bs)) + (if hd bs then 1 else 0)
       = length (snd (edges_of bs)) + (if last bs then 1 else 0)"
proof (induction bs)
  case Nil then show ?case by simp
next
  case (Cons a bs)
  show ?case
  proof (cases bs)
    case Nil
    then show ?thesis by (simp add: edges_of_def astype_int_def where_eq_def)
  next
    case (Cons b r)
    with Cons.IH have ih:
      "(if b then alt (snd (edges_of bs)) (fst (edges_of bs))
        else alt (fst (edges_of bs)) (snd (edges_of bs)))"
      "length (fst (edges_of bs)) + (if b then 1 else 0)
       = length (snd (edges_of bs)) + (if last bs then 1 else 0)"
      by auto
    have e: "edges_of (a # bs) =
       ((if \<not> a \<and> b then [0] else []) @ map Suc (fst (edges_of bs)),
        (if a \<and> \<not> b then [0] else []) @ map Suc (snd (edges_of bs)))"
      using Cons by (auto simp: edges_of_def astype_int_def where_eq_Cons)
    show ?thesis
      using ih e Cons
      by (auto simp: alt_map_Suc intro!: alt_Cons)
  qed
qed

text \<open>
  On a non-empty signal \<^verbatim>\<open>binary_onsets\<close> always returns: after the boundary corrections
  the counts agree, so the ValueError branch is never taken.
\<close>

lemma binary_onsets_Inr:
  assumes "x \<noteq> []"
  shows "\<exists>ons offs. binary_onsets x thresh = Inr (ons, offs) \<and> length ons = length offs \<and>
           (\<forall>i<length ons. ons ! i < offs ! i)"
proof -
  define bs where "bs = map (\<lambda>v. v > thresh) x"
  define ons where "ons = fst (edges_of bs)"
  define offs where "offs = snd (edges_of bs)"
  have ne: "bs \<noteq> []" using assms by (simp add: bs_def)
  from edges_alt [OF ne] have
    al: "if hd bs then alt offs ons else alt ons offs" and
    len: "length ons + (if hd bs then 1 else 0) = length offs + (if last bs then 1 else 0)"
    by (simp_all add: ons_def offs_def)
  define offs' where "offs' = (if hd bs then drop 1 offs else offs)"
  define ons' where "ons' = (if last bs then butlast ons else ons)"
  have leq: "length ons' = length offs'"
    using len by (auto simp: ons'_def offs'_def split: if_splits)
  have lt: "\<forall>i<length ons'. ons' ! i < offs' ! i"
  proof (intro allI impI)
    fix i assume i: "i < length ons'"
    show "ons' ! i < offs' ! i"
    proof (cases "hd bs")
      case True
      with al have "alt offs ons" by simp
      from alt_nth [OF this] have "\<forall>i. Suc i < length offs \<longrightarrow> ons ! i < offs ! Suc i" by simp
      moreover have "Suc i < length offs" using i leq True by (simp add: offs'_def)
      moreover have "ons' ! i = ons ! i" using i by (auto simp: ons'_def nth_butlast)
      moreover have "offs' ! i = offs ! Suc i"
        using True \<open>Suc i < length offs\<close> by (simp add: offs'_def)
      ultimately show ?thesis by simp
    next
      case False
      with al have "alt ons offs" by simp
      from alt_nth [OF this] have "\<forall>i<length offs. ons ! i < offs ! i" by simp
      moreover have "i < length offs" using i leq False by (simp add: offs'_def)
      moreover have "ons' ! i = ons ! i" using i by (auto simp: ons'_def nth_butlast)
      moreover have "offs' = offs" using False by (simp add: offs'_def)
      ultimately show ?thesis by simp
    qed
  qed
  have "binary_onsets x thresh =
          (if length ons' \<noteq> length offs' then Inl ValueError else Inr (ons', offs'))"
    using ne
    by (simp add: binary_onsets_def Let_def bs_def [symmetric] ons'_def offs'_def ons_def offs_def
        edges_of_def)
  with leq lt show ?thesis by simp
qed

text \<open>The returned onsets ascend strictly, and each has a sample after it.\<close>

lemma binary_onsets_range:
  assumes "binary_onsets x thresh = Inr (ons, offs)"
  shows "sorted_wrt (<) ons \<and> (\<forall>i\<in>set ons. Suc i < length x)"
proof -
  define d where "d = diff (astype_int (map (\<lambda>v. v > thresh) x))"
  have ld: "length d = length x - 1" by (simp add: d_def length_diff astype_int_def)
  from assms have "ons = where_eq d 1 \<or> ons = butlast (where_eq d 1)"
    by (auto simp: binary_onsets_def Let_def d_def split: if_splits)
  then have "sorted_wrt (<) ons" and "set ons \<subseteq> set (where_eq d 1)"
    using where_eq_sorted [of d 1] by (auto simp: butlast_conv_take dest: in_set_takeD)
  then show ?thesis using where_eq_bound [of _ d 1] ld by fastforce
qed

text \<open>
  Claim C4. For every non-empty real-valued signal \<open>x\<close> and every threshold,
  \<^verbatim>\<open>binary_onsets\<close> either raises the mismatch error (ValueError) or returns onset and
  offset index sequences of equal length; and whenever it returns, every
  \<open>offsets[i] > onsets[i]\<close>.
\<close>

theorem binary_onsets_edges:
  "x \<noteq> [] \<Longrightarrow>
     (case binary_onsets x thresh of
        Inl e \<Rightarrow> e = ValueError
      | Inr (ons, offs) \<Rightarrow> length ons = length offs \<and> (\<forall>i<length ons. ons ! i < offs ! i))"
  using binary_onsets_Inr [of x thresh] by auto

text \<open>
  Witness for C4: the spec's scenario, signal \<open>[0,0,2,2,0,0,2,2,0]\<close> with threshold 1,
  has onsets \<open>[1,5]\<close> and offsets \<open>[3,7]\<close>.
\<close>

theorem binary_onsets_edges_witness:
  "[0, 0, 2, 2, 0, 0, 2, 2, 0] \<noteq> ([] :: real list) \<and>
   binary_onsets [0, 0, 2, 2, 0, 0, 2, 2, 0] 1 = Inr ([1, 5], [3, 7]) \<and>
   (case binary_onsets [0, 0, 2, 2, 0, 0, 2, 2, 0] 1 of
        Inl e \<Rightarrow> e = ValueError
      | Inr (ons, offs) \<Rightarrow> length ons = length offs \<and> (\<forall>i<length ons. ons ! i < offs ! i))"
proof -
  have ev: "binary_onsets [0, 0, 2, 2, 0, 0, 2, 2, 0] 1 = Inr ([1, 5], [3, 7])"
    by (simp add: binary_onsets_def astype_int_def where_eq_Cons where_eq_def)
  show ?thesis
    using binary_onsets_edges [of "[0, 0, 2, 2, 0, 0, 2, 2, 0]" 1] ev by simp
qed

section \<open>QualityFilter: what the default policy computes\<close>

lemma filter_by_spikerate_eq:
  "filter_by_spikerate spikes metrics thresh =
     filter (\<lambda>r. thresh < n_spikes_of spikes (cluster_id r)) spikes"
  unfolding filter_by_spikerate_def groupby_count_def n_spikes_of_def Let_def
  by (rule filter_cong) (auto simp: filter_map o_def image_iff)

lemma filter_by_metric_eq:
  "filter_by_metric spikes metrics e =
     (filter (\<lambda>r. cluster_id r \<in> passing metrics e) spikes,
      filter (\<lambda>m. m_cluster_id m \<in> passing metrics e) metrics)"
  by (simp add: filter_by_metric_def passing_def Let_def)

lemma passing_filter:
  "passing (filter (\<lambda>m. m_cluster_id m \<in> A) metrics) e = passing metrics e \<inter> A"
  by (auto simp: passing_def)

lemma passing_Nil: "passing [] e = {}"
  by (simp add: passing_def)

lemma passing_Cons:
  "passing (m # ms) e = (if e m then insert (m_cluster_id m) (passing ms e) else passing ms e)"
  by (auto simp: passing_def)

lemma n_spikes_of_Nil: "n_spikes_of [] c = 0"
  by (simp add: n_spikes_of_def)

lemma n_spikes_of_Cons:
  "n_spikes_of (r # rs) c = (if cluster_id r = c then Suc (n_spikes_of rs c) else n_spikes_of rs c)"
  by (simp add: n_spikes_of_def)

lemma n_spikes_of_replicate:
  "n_spikes_of (replicate n r) c = (if cluster_id r = c then n else 0)"
  by (simp add: n_spikes_of_def)

lemma n_spikes_of_filter:
  "n_spikes_of (filter (\<lambda>r. P (cluster_id r)) spikes) c = (if P c then n_spikes_of spikes c else 0)"
proof -
  have "filter (\<lambda>r. cluster_id r = c) (filter (\<lambda>r. P (cluster_id r)) spikes)
        = (if P c then filter (\<lambda>r. cluster_id r = c) spikes else [])"
    by (induction spikes) auto
  then show ?thesis by (simp add: n_spikes_of_def)
qed

text \<open>
  The default policy in closed form. The spikes table keeps the clusters with more than
  100 spikes that the three metric steps keep; the metrics table keeps every cluster
  that the three metric steps keep, whatever its number of spikes.
\<close>

lemma filter_default_metrics_eq:
  "filter_default_metrics spikes metrics =
     (filter (\<lambda>r. 100 < n_spikes_of spikes (cluster_id r) \<and> cluster_id r \<in> kept metrics) spikes,
      filter (\<lambda>m. m_cluster_id m \<in> kept metrics) metrics)"
  unfolding filter_default_metrics_def Let_def filter_by_spikerate_eq filter_by_metric_eq
    kept_def split_conv passing_filter
  by (auto intro!: filter_cong)

lemma kept_filter: "kept (filter (\<lambda>m. m_cluster_id m \<in> kept metrics) metrics) = kept metrics"
  unfolding kept_def [of "filter _ _"] passing_filter by (auto simp: kept_def)

text \<open>
  Claim C6 (the code differs). The claim says that both returned tables are restricted
  to the clusters that pass all four predicates, the first being "at least 100 spikes".
  Here a cluster with a single spike and perfect metrics is dropped from the spikes
  table and kept in the metrics table: \<^verbatim>\<open>filter_by_spikerate\<close> returns the spikes only, so
  the spike-count step never reaches the metrics.
\<close>

theorem filter_default_metrics_sparse_cluster:
  "filter_default_metrics
     [\<lparr>ts = 1, cluster_id = 7, cell_id = 7, depth = 50, probe = None, uuid = None\<rparr>]
     [\<lparr>m_cluster_id = 7, isi_viol = 0, amplitude_cutoff = 0, presence_ratio = 1, m_depth = 50,
        m_probe = None, m_uuid = None, m_cell_id = None\<rparr>]
   = ([],
      [\<lparr>m_cluster_id = 7, isi_viol = 0, amplitude_cutoff = 0, presence_ratio = 1, m_depth = 50,
         m_probe = None, m_uuid = None, m_cell_id = None\<rparr>])"
  by (simp add: filter_default_metrics_eq n_spikes_of_Cons n_spikes_of_Nil kept_def
      passing_Cons passing_Nil)

text \<open>
  The spike-count test is strict: a cluster with exactly 100 spikes and perfect metrics
  loses all its spikes, one with 101 keeps them.
\<close>

lemma filter_default_metrics_exactly_100:
  "filter_default_metrics
     (replicate 100 \<lparr>ts = 1, cluster_id = 7, cell_id = 7, depth = 50, probe = None, uuid = None\<rparr>)
     [\<lparr>m_cluster_id = 7, isi_viol = 0, amplitude_cutoff = 0, presence_ratio = 1, m_depth = 50,
        m_probe = None, m_uuid = None, m_cell_id = None\<rparr>]
   = ([],
      [\<lparr>m_cluster_id = 7, isi_viol = 0, amplitude_cutoff = 0, presence_ratio = 1, m_depth = 50,
         m_probe = None, m_uuid = None, m_cell_id = None\<rparr>])"
  by (simp add: filter_default_metrics_eq n_spikes_of_replicate kept_def passing_Cons passing_Nil)

lemma filter_default_metrics_101:
  "fst (filter_default_metrics
     (replicate 101 \<lparr>ts = 1, cluster_id = 7, cell_id = 7, depth = 50, probe = None, uuid = None\<rparr>)
     [\<lparr>m_cluster_id = 7, isi_viol = 0, amplitude_cutoff = 0, presence_ratio = 1, m_depth = 50,
        m_probe = None, m_uuid = None, m_cell_id = None\<rparr>]) =
    replicate 101 \<lparr>ts = 1, cluster_id = 7, cell_id = 7, depth = 50, probe = None, uuid = None\<rparr>"
  by (simp add: filter_default_metrics_eq n_spikes_of_replicate kept_def passing_Cons passing_Nil)

text \<open>
  Claim C7. The default composite quality filter is idempotent: applied to its own
  output, \<^verbatim>\<open>filter_default_metrics\<close> returns that output unchanged, for every
  spikes/metrics pair (no row is dropped from either table).
\<close>

theorem filter_default_metrics_idempotent:
  "filter_default_metrics (fst (filter_default_metrics spikes metrics))
      (snd (filter_default_metrics spikes metrics)) = filter_default_metrics spikes metrics"
proof -
  let ?P = "\<lambda>c. 100 < n_spikes_of spikes c \<and> c \<in> kept metrics"
  show ?thesis
    unfolding filter_default_metrics_eq [of spikes metrics] fst_conv snd_conv
    unfolding filter_default_metrics_eq kept_filter
    using n_spikes_of_filter [of ?P spikes]
    by (auto intro!: filter_cong)
qed

section \<open>Depth re-ranking: what \<^verbatim>\<open>resort_by_depth\<close> computes\<close>

text \<open>
  Claim C1 (the code differs). The claim, like the docstring of \<^verbatim>\<open>resort_by_depth\<close>, says
  that the recomputed \<^verbatim>\<open>cell_id\<close> increases with the mean depth of the cluster. Here a
  table has the clusters 3, 5 and 7 at depths 300, 200 and 100; cluster 5 is removed
  and the rest is re-ranked. The cell ids are the contiguous range \<open>0, 1\<close>, but the
  deepest cluster 3 gets 0 and the shallowest cluster 7 gets 1: the second
  \<^verbatim>\<open>reset_index()\<close> keeps the index labels that the rows had before the sort, so
  \<^verbatim>\<open>cell_id\<close> is the rank of the cluster id, not of the depth.
\<close>

theorem resort_by_depth_not_depth_ordered:
  "map (\<lambda>r. (cluster_id r, depth r, cell_id r))
     (resort_by_depth (filter (\<lambda>r. cluster_id r \<noteq> 5)
        [spike 1 3 300, spike 2 5 200, spike 3 7 100]))
   = [(3, 300, 0), (7, 100, 1)]"
  by (simp add: resort_by_depth_def spike_def groupby_mean_depth_def reset_index_def
      merge_cell_id_def)

section \<open>Time-basis remapping\<close>

lemma searchsorted_le: "searchsorted a v \<le> length a"
  by (simp add: searchsorted_def length_takeWhile_le)

lemma searchsorted_before_first: "a \<noteq> [] \<Longrightarrow> v < a ! 0 \<Longrightarrow> searchsorted a v = 0"
  by (cases a) (auto simp: searchsorted_def)

lemma searchsorted_nth:
  assumes "sorted_wrt (<) a" "k < length a"
  shows "searchsorted a (a ! k) = k"
proof -
  have "takeWhile (\<lambda>e. e < a ! k) a = take k a"
  proof (rule takeWhile_eq_take_P_nth)
    fix i assume "i < k" "i < length a"
    then show "a ! i < a ! k" using assms by (simp add: sorted_wrt_nth_less)
  next
    show "\<not> a ! k < a ! k" by simp
  qed
  then show ?thesis using assms(2) by (simp add: searchsorted_def)
qed

text \<open>The index \<open>searchsorted - 1\<close>, read as NumPy reads it: \<open>-1\<close> is the last element.\<close>

lemma wrapped_index:
  "x \<noteq> [] \<Longrightarrow>
     x ! nat (if int s - 1 < 0 then int (length x) + (int s - 1) else int s - 1)
       = (if s = 0 then last x else x ! (s - 1))"
proof (cases s)
  case 0
  assume "x \<noteq> []"
  then obtain n where n: "length x = Suc n" by (cases x) auto
  with 0 \<open>x \<noteq> []\<close> show ?thesis by (simp add: last_conv_nth)
next
  case (Suc k)
  then show ?thesis by simp
qed

text \<open>On a non-empty signal with a time basis of its length the remapping always returns.\<close>

lemma remap_time_basis_Inr:
  assumes "x \<noteq> []" "length x = length x_t"
  shows "remap_time_basis x x_t y_t =
    Inr (map (\<lambda>v. if searchsorted x_t v = 0 then last x else x ! (searchsorted x_t v - 1)) y_t)"
proof -
  obtain n where n: "length x = Suc n" using assms(1) by (cases x) auto
  have "- int (length x) \<le> int (searchsorted x_t v) - 1 \<and>
        int (searchsorted x_t v) - 1 < int (length x)" for v
    using searchsorted_le [of x_t v] assms(2) n by simp
  then have "list_all (\<lambda>i. - int (length x) \<le> i \<and> i < int (length x))
          (map (\<lambda>v. int (searchsorted x_t v) - 1) y_t)"
    by (simp add: list_all_iff)
  then have "remap_time_basis x x_t y_t =
     Inr (map (\<lambda>i. x ! nat (if i < 0 then int (length x) + i else i))
            (map (\<lambda>v. int (searchsorted x_t v) - 1) y_t))"
    using assms(2) by (simp add: remap_time_basis_def take_idx_def Let_def)
  also have "map (\<lambda>i. x ! nat (if i < 0 then int (length x) + i else i))
            (map (\<lambda>v. int (searchsorted x_t v) - 1) y_t)
     = map (\<lambda>v. if searchsorted x_t v = 0 then last x else x ! (searchsorted x_t v - 1)) y_t"
    unfolding map_map o_def using wrapped_index [OF assms(1)] by simp
  finally show ?thesis .
qed

text \<open>
  Claim C5 (the code differs). The claim says that remapping a signal onto its own,
  strictly increasing, time basis returns it unchanged. The signal \<open>[10, 20, 30]\<close> on
  the basis \<open>[1, 2, 3]\<close> comes back as \<open>[30, 10, 20]\<close>: \<^verbatim>\<open>searchsorted\<close> finds each time
  at its own index \<open>k\<close>, the code reads index \<open>k - 1\<close>, and index \<open>-1\<close> is the last sample.
\<close>

theorem remap_time_basis_onto_itself:
  "remap_time_basis [10, 20, 30 :: real] [1, 2, 3] [1, 2, 3] = Inr [30, 10, 20]"
  by (simp add: remap_time_basis_def take_idx_def searchsorted_def)

text \<open>
  In general: on its own strictly increasing basis the signal is rotated by one sample.
\<close>

lemma remap_time_basis_rotates:
  assumes "x \<noteq> []" "length x = length x_t" "sorted_wrt (<) x_t"
  shows "remap_time_basis x x_t x_t = Inr (last x # butlast x)"
proof -
  have "map (\<lambda>v. if searchsorted x_t v = 0 then last x else x ! (searchsorted x_t v - 1)) x_t
        = last x # butlast x"
  proof (rule nth_equalityI)
    show "length (map (\<lambda>v. if searchsorted x_t v = 0 then last x
             else x ! (searchsorted x_t v - 1)) x_t) = length (last x # butlast x)"
      using assms(1,2) by (cases x) auto
  next
    fix k assume "k < length (map (\<lambda>v. if searchsorted x_t v = 0 then last x
             else x ! (searchsorted x_t v - 1)) x_t)"
    then have k: "k < length x_t" by simp
    then have "searchsorted x_t (x_t ! k) = k" using assms(3) by (simp add: searchsorted_nth)
    then show "map (\<lambda>v. if searchsorted x_t v = 0 then last x
             else x ! (searchsorted x_t v - 1)) x_t ! k = (last x # butlast x) ! k"
      using k assms(2) by (cases k) (auto simp: nth_butlast)
  qed
  then show ?thesis using remap_time_basis_Inr [OF assms(1,2), of x_t] by simp
qed

text \<open>
  Claim C10. For every non-empty signal \<open>x\<close> with sorted time basis \<open>x_t\<close> and every
  target time \<open>y_t[k]\<close> strictly earlier than the first source time \<open>x_t[0]\<close>,
  \<^verbatim>\<open>remap_time_basis\<close> returns (it is no error) and its value at position \<open>k\<close> is the
  last element of \<open>x\<close>: the computed index is \<open>-1\<close>.
\<close>

theorem remap_time_basis_before_first:
  assumes "x \<noteq> []" "length x = length x_t" "sorted x_t" "k < length y_t" "y_t ! k < x_t ! 0"
  shows "\<exists>out. remap_time_basis x x_t y_t = Inr out \<and> length out = length y_t \<and> out ! k = last x"
proof -
  have "x_t \<noteq> []" using assms(1,2) by auto
  then have "searchsorted x_t (y_t ! k) = 0"
    using assms(5) by (rule searchsorted_before_first)
  then show ?thesis
    using remap_time_basis_Inr [OF assms(1,2), of y_t] assms(4) by simp
qed

text \<open>
  Witness for C10: the signal \<open>[10, 20, 30]\<close> on the basis \<open>[1, 2, 3]\<close>, read at time 0.
\<close>

theorem remap_time_basis_before_first_witness:
  "[10, 20, 30 :: real] \<noteq> [] \<and> length [10, 20, 30 :: real] = length [1, 2, 3 :: real] \<and>
   sorted [1, 2, 3 :: real] \<and> (0 :: nat) < length [0 :: real] \<and> [0 :: real] ! 0 < [1, 2, 3] ! 0 \<and>
   (\<exists>out. remap_time_basis [10, 20, 30 :: real] [1, 2, 3] [0] = Inr out \<and> length out = length [0 :: real]
      \<and> out ! 0 = last [10, 20, 30])"
  using remap_time_basis_before_first [of "[10, 20, 30 :: real]" "[1, 2, 3]" 0 "[0]"]
  by simp

section \<open>Event-triggered statistics\<close>

lemma length_snippet:
  "0 \<le> pre + post \<Longrightarrow> length (snippet x pre post samp) = nat (pre + post)"
  by (auto simp: snippet_def off_signal_def slice_def)

text \<open>
  The loop writes one column per event, in order: the snippet for an event whose window
  fits, and nothing (the zeros of \<^verbatim>\<open>np.zeros\<close> stay) for an event whose window leaves
  the signal. The length test of the column assignment never fails.
\<close>

lemma eta_loop_columns:
  assumes "0 \<le> pre + post"
  shows "eta_loop x pre post (zip [length done..<length done + length ss] ss)
           (done @ replicate (length ss) (replicate (nat (pre + post)) 0))
         = Inr (done @ map (snippet x pre post) ss)"
proof (induction ss arbitrary: "done")
  case Nil
  then show ?case by simp
next
  case (Cons s ss)
  have z: "zip [length done..<length done + length (s # ss)] (s # ss)
         = (length done, s) # zip [length (done @ [snippet x pre post s])..<
              length (done @ [snippet x pre post s]) + length ss] ss"
  proof -
    have "[length done..<length done + length (s # ss)]
          = length done # [Suc (length done)..<Suc (length done) + length ss]"
      by (subst upt_conv_Cons) simp_all
    then show ?thesis by simp
  qed
  show ?case
  proof (cases "off_signal x pre post s")
    case True
    then have sn: "snippet x pre post s = replicate (nat (pre + post)) 0"
      by (simp add: snippet_def)
    have "eta_loop x pre post (zip [length done..<length done + length (s # ss)] (s # ss))
           (done @ replicate (length (s # ss)) (replicate (nat (pre + post)) 0))
       = eta_loop x pre post (zip [length (done @ [snippet x pre post s])..<
              length (done @ [snippet x pre post s]) + length ss] ss)
           ((done @ [snippet x pre post s]) @ replicate (length ss) (replicate (nat (pre + post)) 0))"
      unfolding z using True by (auto simp: off_signal_def sn)
    then show ?thesis using Cons.IH [of "done @ [snippet x pre post s]"] by simp
  next
    case False
    then have sn: "snippet x pre post s = slice x (int s - pre) (int s + post)"
      by (simp add: snippet_def)
    have len: "length (slice x (int s - pre) (int s + post)) = nat (pre + post)"
      using length_snippet [OF assms, of x s] sn by simp
    have "eta_loop x pre post (zip [length done..<length done + length (s # ss)] (s # ss))
           (done @ replicate (length (s # ss)) (replicate (nat (pre + post)) 0))
       = eta_loop x pre post (zip [length (done @ [snippet x pre post s])..<
              length (done @ [snippet x pre post s]) + length ss] ss)
           ((done @ [snippet x pre post s]) @ replicate (length ss) (replicate (nat (pre + post)) 0))"
      unfolding z using False len by (auto simp: off_signal_def sn Let_def nth_append)
    then show ?thesis using Cons.IH [of "done @ [snippet x pre post s]"] by simp
  qed
qed

lemma spike_triggered_of_Inr:
  assumes "spike_triggered_of x tvec ts' pre_win post_win = Inr (rows, st)"
  shows "rows = nat (win_samps tvec pre_win
                  + win_samps tvec (case post_win of None \<Rightarrow> pre_win | Some p \<Rightarrow> p)) \<and>
         st = map (\<lambda>ev. snippet x (win_samps tvec pre_win)
                    (win_samps tvec (case post_win of None \<Rightarrow> pre_win | Some p \<Rightarrow> p))
                    (searchsorted tvec ev)) ts'"
proof -
  let ?pre = "win_samps tvec pre_win"
  let ?post = "win_samps tvec (case post_win of None \<Rightarrow> pre_win | Some p \<Rightarrow> p)"
  from assms have nn: "0 \<le> ?pre + ?post"
    by (auto simp: spike_triggered_of_def win_samps_def Let_def split: if_splits)
  have "eta_loop x ?pre ?post (zip [0..<length (map (searchsorted tvec) ts')] (map (searchsorted tvec) ts'))
           (replicate (length (map (searchsorted tvec) ts')) (replicate (nat (?pre + ?post)) 0))
         = Inr (map (snippet x ?pre ?post) (map (searchsorted tvec) ts'))"
    using eta_loop_columns [OF nn, of x "[]" "map (searchsorted tvec) ts'"] by simp
  with assms show ?thesis
    by (auto simp: spike_triggered_of_def win_samps_def Let_def o_def split: if_splits)
qed

lemma map_zip_upt:
  "length a = n \<Longrightarrow> length b = n \<Longrightarrow>
     map (\<lambda>(m, s). f m s) (zip a b) = map (\<lambda>r. f (a ! r) (b ! r)) [0..<n]"
  by (auto intro: nth_equalityI)

lemma length_nanmean: "length (nanmean rows cols) = rows"
  by (simp add: nanmean_def)

lemma length_nanstd: "length (nanstd rows cols) = rows"
  by (simp add: nanstd_def)

text \<open>
  Claim C9. Whenever the snippet matrix of \<^verbatim>\<open>get_eta\<close> is built (and there is at least
  one event), it has one column per event, all events counted; the column of an event
  whose pre/post window would run off either end of the signal is all zeros (the event
  is skipped, not excluded), the column of any other event is its snippet; and
  \<^verbatim>\<open>get_eta\<close> returns the mean, the standard deviation and the standard error
  (standard deviation over the root of the number of events) computed per offset
  across all these columns, the zero ones included, with the bands
  \<open>lb = mean - sem\<close> and \<open>ub = mean + sem\<close>.
\<close>

theorem get_eta_zero_columns:
  assumes "ts' \<noteq> []"
    and "spike_triggered_of x tvec ts' pre_win post_win = Inr (rows, st)"
  shows "length st = length ts' \<and>
    (\<forall>ii<length ts'. length (st ! ii) = rows \<and>
       st ! ii = (if off_signal x (win_samps tvec pre_win)
                       (win_samps tvec (case post_win of None \<Rightarrow> pre_win | Some p \<Rightarrow> p))
                       (searchsorted tvec (ts' ! ii))
                  then replicate rows 0
                  else slice x (int (searchsorted tvec (ts' ! ii)) - win_samps tvec pre_win)
                         (int (searchsorted tvec (ts' ! ii))
                           + win_samps tvec (case post_win of None \<Rightarrow> pre_win | Some p \<Rightarrow> p)))) \<and>
    (\<exists>e. get_eta x tvec ts' pre_win post_win = Inr e \<and>
       eta_mean e = map (\<lambda>r. sum_list (map (\<lambda>c. c ! r) st) / real (length ts')) [0..<rows] \<and>
       eta_std e = map (\<lambda>r. sqrt (sum_list (map (\<lambda>c. (c ! r - eta_mean e ! r)\<^sup>2) st)
                                / real (length ts'))) [0..<rows] \<and>
       eta_sem e = map (\<lambda>s. s / sqrt (real (length ts'))) (eta_std e) \<and>
       eta_lb e = map (\<lambda>r. eta_mean e ! r - eta_sem e ! r) [0..<rows] \<and>
       eta_ub e = map (\<lambda>r. eta_mean e ! r + eta_sem e ! r) [0..<rows])"
proof -
  let ?pre = "win_samps tvec pre_win"
  let ?post = "win_samps tvec (case post_win of None \<Rightarrow> pre_win | Some p \<Rightarrow> p)"
  from spike_triggered_of_Inr [OF assms(2)] have
    rows: "rows = nat (?pre + ?post)" and
    st: "st = map (\<lambda>ev. snippet x ?pre ?post (searchsorted tvec ev)) ts'"
    by simp_all
  from assms(2) have nn: "0 \<le> ?pre + ?post"
    by (auto simp: spike_triggered_of_def win_samps_def Let_def split: if_splits)
  have len: "length st = length ts'" by (simp add: st)
  have cols: "\<forall>ii<length ts'. length (st ! ii) = rows \<and>
       st ! ii = (if off_signal x ?pre ?post (searchsorted tvec (ts' ! ii))
                  then replicate rows 0
                  else slice x (int (searchsorted tvec (ts' ! ii)) - ?pre)
                         (int (searchsorted tvec (ts' ! ii)) + ?post))"
    using length_snippet [OF nn] by (simp add: st rows snippet_def)
  define e where "e = \<lparr>eta_mean = nanmean rows st,
      eta_sem = map (\<lambda>s. s / sqrt (real (length ts'))) (nanstd rows st),
      eta_std = nanstd rows st,
      eta_t = linspace (- pre_win) (case post_win of None \<Rightarrow> pre_win | Some p \<Rightarrow> p) rows,
      eta_lb = map (\<lambda>(m, s). m - s) (zip (nanmean rows st)
                 (map (\<lambda>s. s / sqrt (real (length ts'))) (nanstd rows st))),
      eta_ub = map (\<lambda>(m, s). m + s) (zip (nanmean rows st)
                 (map (\<lambda>s. s / sqrt (real (length ts'))) (nanstd rows st)))\<rparr>"
  have g: "get_eta x tvec ts' pre_win post_win = Inr e"
    using assms by (simp add: get_eta_def e_def Let_def)
  have m: "eta_mean e = map (\<lambda>r. sum_list (map (\<lambda>c. c ! r) st) / real (length ts')) [0..<rows]"
    by (simp add: e_def nanmean_def len)
  have s: "eta_std e = map (\<lambda>r. sqrt (sum_list (map (\<lambda>c. (c ! r - eta_mean e ! r)\<^sup>2) st)
                                / real (length ts'))) [0..<rows]"
    by (simp add: e_def nanstd_def len)
  have se: "eta_sem e = map (\<lambda>s. s / sqrt (real (length ts'))) (eta_std e)"
    by (simp add: e_def)
  have lb: "eta_lb e = map (\<lambda>r. eta_mean e ! r - eta_sem e ! r) [0..<rows]"
    unfolding e_def eta.simps
    by (rule map_zip_upt) (simp_all add: length_nanmean length_nanstd)
  have ub: "eta_ub e = map (\<lambda>r. eta_mean e ! r + eta_sem e ! r) [0..<rows]"
    unfolding e_def eta.simps
    by (rule map_zip_upt) (simp_all add: length_nanmean length_nanstd)
  show ?thesis using len cols g m s se lb ub by blast
qed

text \<open>
  Witness for C9: six samples at unit rate, a window of two samples on each side, and
  events at 0.5, 2.5 and 4.5. The first and the last window leave the signal; their
  columns stay zero and the mean divides by three.
\<close>

lemma spike_triggered_of_example:
  "spike_triggered_of [1, 2, 3, 4, 5, 6] [0, 1, 2, 3, 4, 5] [1 / 2, 5 / 2, 9 / 2] 2 None
     = Inr (4, [[0, 0, 0, 0], [2, 3, 4, 5], [0, 0, 0, 0]])"
  by (simp add: spike_triggered_of_def searchsorted_def py_int_def slice_def upt_conv_Cons
      numeral_eq_Suc)

theorem get_eta_zero_columns_witness:
  "[1 / 2, 5 / 2, 9 / 2 :: real] \<noteq> [] \<and>
   spike_triggered_of [1, 2, 3, 4, 5, 6] [0, 1, 2, 3, 4, 5] [1 / 2, 5 / 2, 9 / 2] 2 None
     = Inr (4, [[0, 0, 0, 0], [2, 3, 4, 5], [0, 0, 0, 0]]) \<and>
   off_signal [1, 2, 3, 4, 5, 6] (win_samps [0, 1, 2, 3, 4, 5] 2) (win_samps [0, 1, 2, 3, 4, 5] 2)
     (searchsorted [0, 1, 2, 3, 4, 5] (1 / 2)) \<and>
   (\<exists>e. get_eta [1, 2, 3, 4, 5, 6] [0, 1, 2, 3, 4, 5] [1 / 2, 5 / 2, 9 / 2] 2 None = Inr e \<and>
        eta_mean e = [2 / 3, 1, 4 / 3, 5 / 3])"
proof -
  have off: "off_signal [1, 2, 3, 4, 5, 6] (win_samps [0, 1, 2, 3, 4, 5] 2)
     (win_samps [0, 1, 2, 3, 4, 5] 2) (searchsorted [0, 1, 2, 3, 4, 5] (1 / 2))"
    by (simp add: off_signal_def win_samps_def py_int_def searchsorted_def)
  have "\<exists>e. get_eta [1, 2, 3, 4, 5, 6] [0, 1, 2, 3, 4, 5] [1 / 2, 5 / 2, 9 / 2] 2 None = Inr e \<and>
        eta_mean e = map (\<lambda>r. sum_list (map (\<lambda>c. c ! r) [[0, 0, 0, 0], [2, 3, 4, 5], [0, 0, 0, 0]])
                             / real (length [1 / 2, 5 / 2, 9 / 2 :: real])) [0..<4]"
    using get_eta_zero_columns [OF _ spike_triggered_of_example] by blast
  then show ?thesis using off spike_triggered_of_example by (simp add: upt_conv_Cons)
qed

section \<open>ClockAligner: the time vector\<close>

lemma length_linspace: "length (linspace a b n) = n"
  by (simp add: linspace_def)

lemma linspace_nth_0: "0 < n \<Longrightarrow> linspace a b n ! 0 = a"
  by (simp add: linspace_def)

lemma linspace_sorted:
  assumes "a \<le> b"
  shows "sorted (linspace a b n)"
proof (cases "n = 1")
  case True
  then show ?thesis by (simp add: linspace_def)
next
  case False
  define d where "d = (b - a) / real (n - 1)"
  have d: "0 \<le> d" using assms by (simp add: d_def)
  have ls: "linspace a b n = map (\<lambda>i. a + real i * d) [0..<n]"
    using False by (simp add: linspace_def d_def)
  have "a + real i * d \<le> a + real j * d" if "i \<le> j" for i j :: nat
    using that d by (simp add: mult_right_mono)
  then show ?thesis
    unfolding ls by (simp add: sorted_iff_nth_mono)
qed

lemma linspace_bounds:
  assumes "a \<le> b" "v \<in> set (linspace a b n)"
  shows "a \<le> v \<and> v \<le> b"
proof (cases "n = 1")
  case True
  with assms show ?thesis by (simp add: linspace_def)
next
  case False
  define d where "d = (b - a) / real (n - 1)"
  have ls: "linspace a b n = map (\<lambda>i. a + real i * d) [0..<n]"
    using False by (simp add: linspace_def d_def)
  from assms(2) obtain i where i: "i < n" and v: "v = a + real i * d"
    unfolding ls by auto
  from i False have n: "1 < n" by simp
  have d: "0 \<le> d" using assms(1) by (simp add: d_def)
  have "real i * d \<le> real (n - 1) * d"
    using i d by (intro mult_right_mono) auto
  also have "\<dots> = b - a" using n by (simp add: d_def)
  finally have "v \<le> b" by (simp add: v)
  moreover have "0 \<le> real i * d" using d by simp
  then have "a \<le> v" by (simp add: v)
  ultimately show ?thesis by simp
qed

lemma strict_sorted_nth_mono:
  "sorted_wrt (<) (ons :: nat list) \<Longrightarrow> i \<le> j \<Longrightarrow> j < length ons \<Longrightarrow> ons ! i \<le> ons ! j"
  by (cases "i = j") (auto simp: sorted_wrt_nth_less intro: order.strict_implies_order)

lemma set_slice_exact:
  assumes "length P = a" "a \<le> b" "b \<le> a + length D" "length vals = b - a"
  shows "set_slice (P @ D) a b vals = Inr (P @ vals @ drop (b - a) D)"
  using assms by (simp add: set_slice_def Let_def min_def max_def)

lemma astype_Float64: "astype Float64 vals = vals"
  by (simp add: astype_def)

lemma interp_loop_append:
  "interp_loop dt ons tss (as @ bs) tvec =
     (case interp_loop dt ons tss as tvec of
        Inl e \<Rightarrow> Inl e | Inr t' \<Rightarrow> interp_loop dt ons tss bs t')"
  by (induction as arbitrary: tvec) (auto simp: Let_def split: sum.splits)

lemma segs_Suc:
  "segs ons tss (Suc k) = segs ons tss k @ linspace (tss ! k) (tss ! Suc k) (ons ! Suc k - ons ! k)"
  by (simp add: segs_def)

lemma segs_0: "segs ons tss 0 = []"
  by (simp add: segs_def)

lemma length_segs:
  assumes "sorted_wrt (<) ons" "k < length ons"
  shows "length (segs ons tss k) = ons ! k - ons ! 0"
  using assms(2)
proof (induction k)
  case 0
  then show ?case by (simp add: segs_0)
next
  case (Suc k)
  then have "ons ! 0 \<le> ons ! k" "ons ! k < ons ! Suc k"
    using assms(1) by (auto simp: sorted_wrt_nth_less strict_sorted_nth_mono)
  with Suc show ?case by (simp add: segs_Suc length_linspace)
qed

text \<open>
  The loop over the first \<open>k\<close> onset pairs overwrites the samples between the first
  and the \<open>k\<close>-th onset with the interpolated segments and leaves the rest alone.
\<close>

lemma interp_loop_closed:
  assumes so: "sorted_wrt (<) ons" and k: "k < length ons"
    and bd: "\<forall>i\<in>set ons. i \<le> length tvec"
  shows "interp_loop Float64 ons tss [0..<k] tvec
           = Inr (take (ons ! 0) tvec @ segs ons tss k @ drop (ons ! k) tvec)"
  using k
proof (induction k)
  case 0
  then show ?case by (simp add: segs_0)
next
  case (Suc k)
  then have k: "k < length ons" by simp
  let ?P = "take (ons ! 0) tvec @ segs ons tss k"
  let ?D = "drop (ons ! k) tvec"
  have le0: "ons ! 0 \<le> ons ! k" using so k by (simp add: strict_sorted_nth_mono)
  have lt: "ons ! k < ons ! Suc k" using so Suc.prems by (simp add: sorted_wrt_nth_less)
  have b0: "ons ! 0 \<le> length tvec" "ons ! k \<le> length tvec" "ons ! Suc k \<le> length tvec"
  proof -
    have "ons ! 0 \<in> set ons" "ons ! k \<in> set ons" "ons ! Suc k \<in> set ons"
      using k Suc.prems by (auto intro: nth_mem)
    then show "ons ! 0 \<le> length tvec" "ons ! k \<le> length tvec" "ons ! Suc k \<le> length tvec"
      using bd by blast+
  qed
  have lP: "length ?P = ons ! k"
    using length_segs [OF so k, of tss] le0 b0 by simp
  have step: "set_slice (?P @ ?D) (ons ! k) (ons ! Suc k)
        (linspace (tss ! k) (tss ! Suc k) (ons ! Suc k - ons ! k))
      = Inr (?P @ linspace (tss ! k) (tss ! Suc k) (ons ! Suc k - ons ! k)
               @ drop (ons ! Suc k - ons ! k) ?D)"
    using lP lt b0 by (intro set_slice_exact) (auto simp: length_linspace)
  have dd: "drop (ons ! Suc k - ons ! k) ?D = drop (ons ! Suc k) tvec"
    using lt by simp
  have "interp_loop Float64 ons tss [0..<Suc k] tvec
      = interp_loop Float64 ons tss [k] (?P @ ?D)"
    using Suc.IH [OF k] by (simp add: interp_loop_append)
  also have "\<dots> = Inr (?P @ linspace (tss ! k) (tss ! Suc k) (ons ! Suc k - ons ! k)
               @ drop (ons ! Suc k) tvec)"
    using lt step dd by (simp add: Let_def astype_Float64)
  finally show ?case by (simp add: segs_Suc)
qed

text \<open>
  With at least one onset, as many timestamps as onsets and a non-zero sample rate,
  \<^verbatim>\<open>get_tvec\<close> returns: the extrapolated first segment, the interpolated segments and
  the extrapolated last segment, in a row. No uninitialised cell survives.
\<close>

lemma get_tvec_closed:
  assumes bo: "binary_onsets x 1 = Inr (ons, offs)"
    and ne: "ons \<noteq> []" and len: "length tss = length ons" and sr: "sr \<noteq> 0"
  shows "get_tvec Float64 garbage x tss sr =
     Inr (linspace (tss ! 0 - real (ons ! 0) / sr) (tss ! 0) (ons ! 0)
          @ segs ons tss (length ons - 1)
          @ linspace (last tss) (last tss + real (length x - last ons) / sr)
              (length x - last ons))"
proof -
  let ?t0 = "empty_like Float64 garbage x"
  let ?m = "length ons - 1"
  let ?first = "linspace (tss ! 0 - real (ons ! 0) / sr) (tss ! 0) (ons ! 0)"
  let ?last = "linspace (last tss) (last tss + real (length x - last ons) / sr)
              (length x - last ons)"
  from binary_onsets_range [OF bo] have so: "sorted_wrt (<) ons"
    and bx: "\<forall>i\<in>set ons. Suc i < length x" by simp_all
  have l0: "length ?t0 = length x" by (simp add: empty_like_def astype_Float64)
  have m: "?m < length ons" using ne by (cases ons) auto
  have lo: "last ons = ons ! ?m" using ne by (simp add: last_conv_nth)
  have bd: "\<forall>i\<in>set ons. i \<le> length ?t0" using bx l0 by auto
  have o0: "ons ! 0 \<le> ons ! ?m" using so m by (simp add: strict_sorted_nth_mono)
  have "ons ! ?m \<in> set ons" using m by simp
  then have "Suc (ons ! ?m) < length x" using bx by blast
  then have om: "ons ! ?m \<le> length x" by simp
  have loop: "interp_loop Float64 ons tss [0..<?m] ?t0
           = Inr (take (ons ! 0) ?t0 @ segs ons tss ?m @ drop (ons ! ?m) ?t0)"
    by (rule interp_loop_closed [OF so m bd])
  let ?t1 = "take (ons ! 0) ?t0 @ segs ons tss ?m @ drop (ons ! ?m) ?t0"
  have lS: "length (segs ons tss ?m) = ons ! ?m - ons ! 0" by (rule length_segs [OF so m])
  have s1: "set_slice ([] @ ?t1) 0 (ons ! 0) ?first = Inr ([] @ ?first @ drop (ons ! 0 - 0) ?t1)"
    using o0 om l0 lS by (intro set_slice_exact) (auto simp: length_linspace)
  have d1: "drop (ons ! 0) ?t1 = segs ons tss ?m @ drop (ons ! ?m) ?t0"
    using o0 om l0 by simp
  let ?t2 = "(?first @ segs ons tss ?m) @ drop (ons ! ?m) ?t0"
  have l2: "length ?t2 = length x" using o0 om l0 lS by (simp add: length_linspace)
  have s2: "set_slice ?t2 (ons ! ?m) (length x) ?last
      = Inr ((?first @ segs ons tss ?m) @ ?last @ drop (length x - ons ! ?m) (drop (ons ! ?m) ?t0))"
    using o0 om l0 lS lo by (intro set_slice_exact) (auto simp: length_linspace)
  have tn: "tss \<noteq> []" using ne len by auto
  show ?thesis
    using bo len loop s1 d1 s2 l2 tn sr lo l0
    by (simp add: get_tvec_def Let_def astype_Float64)
qed

lemma segs_sorted:
  assumes "sorted tss" "k < length tss"
  shows "sorted (segs ons tss k) \<and> (\<forall>v\<in>set (segs ons tss k). tss ! 0 \<le> v \<and> v \<le> tss ! k)"
  using assms(2)
proof (induction k)
  case 0
  then show ?case by (simp add: segs_0)
next
  case (Suc k)
  then have ih: "sorted (segs ons tss k)"
    "\<forall>v\<in>set (segs ons tss k). tss ! 0 \<le> v \<and> v \<le> tss ! k" by simp_all
  have st: "tss ! k \<le> tss ! Suc k" "tss ! 0 \<le> tss ! k"
    using assms(1) Suc.prems by (simp_all add: sorted_iff_nth_mono)
  let ?seg = "linspace (tss ! k) (tss ! Suc k) (ons ! Suc k - ons ! k)"
  have sg: "sorted ?seg" by (rule linspace_sorted [OF st(1)])
  have bg: "\<forall>v\<in>set ?seg. tss ! k \<le> v \<and> v \<le> tss ! Suc k"
    using linspace_bounds [OF st(1)] by blast
  have "sorted (segs ons tss k @ ?seg)"
    using ih sg bg by (fastforce simp: sorted_append)
  moreover have "\<forall>v\<in>set (segs ons tss k @ ?seg). tss ! 0 \<le> v \<and> v \<le> tss ! Suc k"
    using ih(2) bg st by fastforce
  ultimately show ?case by (simp add: segs_Suc)
qed

lemma segs_nth_onset:
  assumes so: "sorted_wrt (<) ons" and k: "k < length ons" and i: "i < k"
  shows "segs ons tss k ! (ons ! i - ons ! 0) = tss ! i"
  using k i
proof (induction k)
  case 0
  then show ?case by simp
next
  case (Suc k)
  then have k: "k < length ons" by simp
  have lk: "length (segs ons tss k) = ons ! k - ons ! 0" by (rule length_segs [OF so k])
  have o0: "ons ! 0 \<le> ons ! i" using so Suc.prems by (simp add: strict_sorted_nth_mono)
  show ?case
  proof (cases "i = k")
    case True
    have "ons ! k < ons ! Suc k" using so Suc.prems by (simp add: sorted_wrt_nth_less)
    then show ?thesis
      using True lk by (simp add: segs_Suc nth_append linspace_nth_0)
  next
    case False
    then have ik: "i < k" using Suc.prems by simp
    then have "ons ! i < ons ! k" using so k by (simp add: sorted_wrt_nth_less)
    then have "ons ! i - ons ! 0 < length (segs ons tss k)" using lk o0 by simp
    then show ?thesis using Suc.IH [OF k ik] by (simp add: segs_Suc nth_append)
  qed
qed

lemma get_tvec_properties:
  assumes bo: "binary_onsets x 1 = Inr (ons, offs)"
    and ne: "ons \<noteq> []" and len: "length tss = length ons" and sr: "0 < sr"
  shows "\<exists>tvec. get_tvec Float64 garbage x tss sr = Inr tvec \<and> length tvec = length x \<and>
           (sorted tss \<longrightarrow> sorted tvec) \<and> (\<forall>i<length ons. tvec ! (ons ! i) = tss ! i)"
proof -
  let ?m = "length ons - 1"
  let ?first = "linspace (tss ! 0 - real (ons ! 0) / sr) (tss ! 0) (ons ! 0)"
  let ?S = "segs ons tss ?m"
  let ?last = "linspace (last tss) (last tss + real (length x - last ons) / sr)
              (length x - last ons)"
  have cl: "get_tvec Float64 garbage x tss sr = Inr (?first @ ?S @ ?last)"
    using get_tvec_closed [OF bo ne len] sr by simp
  from binary_onsets_range [OF bo] have so: "sorted_wrt (<) ons"
    and bx: "\<forall>i\<in>set ons. Suc i < length x" by simp_all
  have m: "?m < length ons" using ne by (cases ons) auto
  have lo: "last ons = ons ! ?m" using ne by (simp add: last_conv_nth)
  have "tss \<noteq> []" using ne len by auto
  then have lt: "last tss = tss ! ?m" using len by (simp add: last_conv_nth)
  have "ons ! ?m \<in> set ons" using m by simp
  then have om: "Suc (ons ! ?m) < length x" using bx by blast
  have o0: "ons ! 0 \<le> ons ! ?m" using so m by (simp add: strict_sorted_nth_mono)
  have lS: "length ?S = ons ! ?m - ons ! 0" by (rule length_segs [OF so m])
  have L: "length (?first @ ?S @ ?last) = length x"
    using o0 om lS lo by (simp add: length_linspace)
  have srt: "sorted (?first @ ?S @ ?last)" if st: "sorted tss"
  proof -
    have f1: "tss ! 0 - real (ons ! 0) / sr \<le> tss ! 0" using sr by simp
    have f2: "last tss \<le> last tss + real (length x - last ons) / sr" using sr by simp
    have a: "sorted ?first" "\<forall>v\<in>set ?first. v \<le> tss ! 0"
      using linspace_sorted [OF f1] linspace_bounds [OF f1] by blast+
    have b: "sorted ?S" "\<forall>v\<in>set ?S. tss ! 0 \<le> v \<and> v \<le> tss ! ?m"
      using segs_sorted [OF st, of ?m ons] m len by simp_all
    have c: "sorted ?last" "\<forall>v\<in>set ?last. tss ! ?m \<le> v"
      using linspace_sorted [OF f2] linspace_bounds [OF f2] lt by auto
    have t0m: "tss ! 0 \<le> tss ! ?m" using st m len by (simp add: sorted_iff_nth_mono)
    have "sorted (?S @ ?last)" using b c by (fastforce simp: sorted_append)
    moreover have "\<forall>u\<in>set ?first. \<forall>v\<in>set (?S @ ?last). u \<le> v"
      using a(2) b(2) c(2) t0m by fastforce
    ultimately show ?thesis using a(1) by (simp add: sorted_append)
  qed
  have val: "(?first @ ?S @ ?last) ! (ons ! i) = tss ! i" if i: "i < length ons" for i
  proof (cases "i = ?m")
    case True
    have "(?first @ ?S @ ?last) ! (ons ! ?m) = ?last ! 0"
      using o0 lS by (simp add: nth_append length_linspace)
    also have "\<dots> = last tss" using om lo by (simp add: linspace_nth_0)
    finally show ?thesis using True lt by simp
  next
    case False
    then have im: "i < ?m" using i by simp
    then have "ons ! i < ons ! ?m" using so m by (simp add: sorted_wrt_nth_less)
    moreover have "ons ! 0 \<le> ons ! i" using so i by (simp add: strict_sorted_nth_mono)
    ultimately have "\<not> ons ! i < ons ! 0" "ons ! i - ons ! 0 < length ?S"
      using lS by simp_all
    then have "(?first @ ?S @ ?last) ! (ons ! i) = ?S ! (ons ! i - ons ! 0)"
      by (simp add: nth_append length_linspace)
    then show ?thesis using segs_nth_onset [OF so m im, of tss] by simp
  qed
  show ?thesis using cl L srt val by (intro exI [of _ "?first @ ?S @ ?last"]) blast
qed

text \<open>
  On a float-typed signal and with a positive sample rate: whenever \<^verbatim>\<open>get_tvec\<close> produces
  a time vector, the count of timestamps equals the number of detected onsets, the
  vector has exactly the length of the input signal, it is non-decreasing whenever the
  reference timestamps are non-decreasing, and its value at each detected onset sample
  index equals the corresponding reference timestamp. (Lemma \<open>get_tvec_properties\<close>
  above adds that a vector is produced whenever there is at least one onset and the
  counts agree.)
\<close>

theorem get_tvec_float:
  assumes "0 < sr" and "get_tvec Float64 garbage x tss sr = Inr tvec"
  shows "\<exists>ons offs. binary_onsets x 1 = Inr (ons, offs) \<and> length tss = length ons \<and>
           length tvec = length x \<and> (sorted tss \<longrightarrow> sorted tvec) \<and>
           (\<forall>i<length ons. tvec ! (ons ! i) = tss ! i)"
proof -
  from assms(2) obtain ons offs where bo: "binary_onsets x 1 = Inr (ons, offs)"
    by (auto simp: get_tvec_def Let_def split: sum.splits)
  with assms(2) have len: "length tss = length ons" and tn: "tss \<noteq> []"
    by (auto simp: get_tvec_def Let_def split: sum.splits if_splits)
  then have ne: "ons \<noteq> []" by auto
  from get_tvec_properties [OF bo ne len assms(1), of garbage] assms(2) bo len
  show ?thesis by auto
qed

text \<open>
  An instance on a float-typed signal: two pulses with onsets at samples 2 and 5,
  timestamps 10 and 11, sample rate 2.
\<close>

lemma get_tvec_example:
  "get_tvec Float64 [] [0, 0, 0, 2, 2, 0, 2, 0] [10, 11] 2
     = Inr [9, 10, 10, 21 / 2, 11, 11, 47 / 4, 25 / 2]"
  by (simp add: get_tvec_def binary_onsets_def astype_int_def where_eq_Cons where_eq_def
      empty_like_def set_slice_def linspace_def upt_conv_Cons numeral_eq_Suc astype_def)

theorem get_tvec_float_witness:
  "(0 :: real) < 2 \<and>
   get_tvec Float64 [] [0, 0, 0, 2, 2, 0, 2, 0] [10, 11] 2
     = Inr [9, 10, 10, 21 / 2, 11, 11, 47 / 4, 25 / 2] \<and>
   (\<exists>ons offs. binary_onsets [0, 0, 0, 2, 2, 0, 2, 0] 1 = Inr (ons, offs) \<and>
      length [10, 11 :: real] = length ons \<and>
      length [9, 10, 10, 21 / 2, 11, 11, 47 / 4, 25 / 2 :: real] = length [0, 0, 0, 2, 2, 0, 2, 0 :: real])"
  using get_tvec_float [OF _ get_tvec_example] get_tvec_example by auto

text \<open>
  Claim C3 (the code differs). The claim says that, for every sync signal, the value of
  the time vector at each detected onset equals the corresponding reference timestamp.
  The time vector is created by \<^verbatim>\<open>np.empty_like(x_sync)\<close> and so has the element type of
  the signal. Here the signal is an integer array with onsets at samples 2 and 5, the
  timestamps are 10.5 and 11.5 and the sample rate is 2: every time is cut to its integer
  part when it is stored, and the vector holds 10 and 11 at the onsets.
\<close>

theorem get_tvec_integer_signal:
  "binary_onsets [0, 0, 0, 2, 2, 0, 2, 0] 1 = Inr ([2, 5], [4, 6]) \<and>
   get_tvec Int64 [] [0, 0, 0, 2, 2, 0, 2, 0] [21 / 2, 23 / 2] 2
     = Inr [9, 10, 10, 11, 11, 11, 12, 13]"
  by (simp add: get_tvec_def binary_onsets_def astype_int_def where_eq_Cons where_eq_def
      empty_like_def set_slice_def linspace_def upt_conv_Cons numeral_eq_Suc astype_def
      py_int_def)

section \<open>Binning of spike trains\<close>

lemma histogram_Inr:
  "histogram a bins = Inr h \<Longrightarrow> h = map (bin_count bins a) [0..<length bins - 1]"
  by (auto simp: histogram_def split: if_splits)

text \<open>
  The loop over the cells writes each listed row once: the histogram of the cell's spike
  times, followed by the last entry the row had before.
\<close>

lemma fill_raster_rows:
  assumes "fill_raster sp bins cells raster = Inr out"
    and "distinct cells" and "\<forall>c\<in>set cells. c < length raster"
  shows "length out = length raster \<and>
     (\<forall>i<length raster. out ! i =
        (if i \<in> set cells
         then map real (map (bin_count bins (map fst (filter (\<lambda>(t, j). j = i) sp)))
                          [0..<length bins - 1])
              @ drop (length (raster ! i) - 1) (raster ! i)
         else raster ! i))"
  using assms
proof (induction cells arbitrary: raster)
  case Nil
  then show ?case by simp
next
  case (Cons c cs)
  let ?a = "map fst (filter (\<lambda>(t, j). j = c) sp)"
  from Cons.prems(1) obtain h where h: "histogram ?a bins = Inr h"
    by (auto simp: Let_def split: sum.splits)
  let ?row = "map real h @ drop (length (raster ! c) - 1) (raster ! c)"
  from Cons.prems(1) h have rec: "fill_raster sp bins cs (raster[c := ?row]) = Inr out"
    by (simp add: Let_def)
  have d: "distinct cs" "c \<notin> set cs" using Cons.prems(2) by simp_all
  have b: "\<forall>c'\<in>set cs. c' < length (raster[c := ?row])" "c < length raster"
    using Cons.prems(3) by simp_all
  from Cons.IH [OF rec d(1) b(1)] have
    len: "length out = length raster" and
    rows: "\<forall>i<length raster. out ! i =
        (if i \<in> set cs
         then map real (map (bin_count bins (map fst (filter (\<lambda>(t, j). j = i) sp)))
                          [0..<length bins - 1])
              @ drop (length (raster[c := ?row] ! i) - 1) (raster[c := ?row] ! i)
         else raster[c := ?row] ! i)"
    by simp_all
  have "out ! i =
        (if i \<in> set (c # cs)
         then map real (map (bin_count bins (map fst (filter (\<lambda>(t, j). j = i) sp)))
                          [0..<length bins - 1])
              @ drop (length (raster ! i) - 1) (raster ! i)
         else raster ! i)" if i: "i < length raster" for i
  proof (cases "i = c")
    case True
    then show ?thesis using rows i d(2) b(2) histogram_Inr [OF h] by simp
  next
    case False
    then show ?thesis using rows i by simp
  qed
  with len show ?case by simp
qed

lemma length_filter_map_fst:
  "length (filter P (map fst (filter Q zs))) = length (filter (\<lambda>z. Q z \<and> P (fst z)) zs)"
  by (induction zs) auto


text \<open>
  What \<^verbatim>\<open>bin_trains\<close> computes. Whenever it returns, the raster has one row per cell
  index \<open>0 .. max(idx)\<close> and one column per bin edge, and the counts are taken over the
  open interval \<open>(start_time, max_time)\<close>: a spike at or before \<open>start_time\<close>, or at or
  after \<open>max_time\<close>, contributes to no bin; each entry (cell, bin \<open>k\<close>) for
  \<open>k < len(bins) - 1\<close> is the number of that cell's spikes with
  \<open>start_time < ts < max_time\<close> that fall in bin \<open>k\<close> as \<^verbatim>\<open>np.histogram\<close> takes it (from
  edge \<open>k\<close> up to, but not including, edge \<open>k + 1\<close>; the last counted bin includes its
  right edge); and the final column is never written: it holds what \<^verbatim>\<open>np.empty\<close> left
  there.
\<close>

theorem bin_trains_counts:
  assumes "bin_trains garbage ts' idx max_time binsize start_time = Inr (raster, cells, bins)"
    and "mt = (case max_time of None \<Rightarrow> Max (set ts') | Some m \<Rightarrow> m)"
  shows "cells = [0..<Max (set idx) + 1] \<and> length raster = Max (set idx) + 1 \<and>
    arange start_time mt binsize = Inr bins \<and>
    (\<forall>cell<length raster. length (raster ! cell) = length bins \<and>
       (\<forall>k. Suc k < length bins \<longrightarrow>
          raster ! cell ! k =
            real (length (filter (\<lambda>(time, i). i = cell \<and> start_time < time \<and> time < mt \<and>
                    bins ! k \<le> time \<and>
                    (if Suc k = length bins - 1 then time \<le> bins ! Suc k
                     else time < bins ! Suc k)) (zip ts' idx)))) \<and>
       (bins \<noteq> [] \<longrightarrow> raster ! cell ! (length bins - 1) = garbage cell (length bins - 1)))"
proof -
  let ?n = "Max (set idx) + 1"
  let ?sp = "filter (\<lambda>(time, i). time < mt) (filter (\<lambda>(time, i). time > start_time) (zip ts' idx))"
  let ?r0 = "np_empty garbage ?n (length bins)"
  from assms have ar: "arange start_time mt binsize = Inr bins"
    by (auto simp: bin_trains_def Let_def split: if_splits sum.splits)
  from assms ar have cells: "cells = [0..<?n]"
    and fr: "fill_raster ?sp bins [0..<?n] ?r0 = Inr raster"
    by (auto simp: bin_trains_def Let_def split: if_splits sum.splits)
  have l0: "length ?r0 = ?n" by (simp add: np_empty_def)
  have r0: "?r0 ! i = map (garbage i) [0..<length bins]" if "i < ?n" for i
    using that by (simp add: np_empty_def del: upt_Suc)
  from fill_raster_rows [OF fr] l0 have
    len: "length raster = ?n" and
    rows: "\<forall>i<?n. raster ! i =
         map real (map (bin_count bins (map fst (filter (\<lambda>(time, j). j = i) ?sp)))
                          [0..<length bins - 1])
              @ drop (length (?r0 ! i) - 1) (?r0 ! i)"
    by auto
  have row: "length (raster ! cell) = length bins \<and>
       (\<forall>k. Suc k < length bins \<longrightarrow>
          raster ! cell ! k =
            real (length (filter (\<lambda>(time, i). i = cell \<and> start_time < time \<and> time < mt \<and>
                    bins ! k \<le> time \<and>
                    (if Suc k = length bins - 1 then time \<le> bins ! Suc k
                     else time < bins ! Suc k)) (zip ts' idx)))) \<and>
       (bins \<noteq> [] \<longrightarrow> raster ! cell ! (length bins - 1) = garbage cell (length bins - 1))"
    if c: "cell < ?n" for cell
  proof -
    let ?a = "map fst (filter (\<lambda>(time, j). j = cell) ?sp)"
    have eq: "raster ! cell = map real (map (bin_count bins ?a) [0..<length bins - 1])
                @ drop (length bins - 1) (map (garbage cell) [0..<length bins])"
      using rows c r0 [OF c] by simp
    have l: "length (raster ! cell) = length bins" by (simp add: eq)
    have cnt: "bin_count bins ?a k =
         length (filter (\<lambda>(time, i). i = cell \<and> start_time < time \<and> time < mt \<and>
                    bins ! k \<le> time \<and>
                    (if Suc k = length bins - 1 then time \<le> bins ! Suc k
                     else time < bins ! Suc k)) (zip ts' idx))" for k
      unfolding bin_count_def length_filter_map_fst filter_filter
      by (rule arg_cong [where f = length], rule filter_cong) auto
    have k: "raster ! cell ! k = real (bin_count bins ?a k)" if "Suc k < length bins" for k
    proof -
      from that have "k < length bins - 1" by simp
      then show ?thesis unfolding eq by (simp add: nth_append)
    qed
    have lastcol: "raster ! cell ! (length bins - 1) = garbage cell (length bins - 1)"
      if ne: "bins \<noteq> []"
    proof -
      obtain n where n: "length bins = Suc n" using ne by (cases bins) auto
      show ?thesis unfolding eq n by (simp add: nth_append del: upt_Suc)
    qed
    show ?thesis using l k cnt lastcol by simp
  qed
  show ?thesis using cells len ar row by simp
qed

text \<open>
  An instance: two cells, bin edges 5, 5.5 and 6; the spike at exactly 5 and the spike
  at 7 are not counted.
\<close>

lemma bin_trains_example2:
  "bin_trains (\<lambda>i k. 0) [5, 26 / 5, 11 / 2, 57 / 10, 59 / 10, 7] [0, 0, 1, 1, 1, 1]
      (Some (31 / 5)) (1 / 2) 5
   = Inr ([[1, 0, 0], [0, 3, 0]], [0, 1], [5, 11 / 2, 6])"
  by (simp add: bin_trains_def arange_def np_empty_def histogram_def bin_count_def upt_conv_Cons)

theorem bin_trains_counts_witness:
  "bin_trains (\<lambda>i k. 0) [5, 26 / 5, 11 / 2, 57 / 10, 59 / 10, 7] [0, 0, 1, 1, 1, 1]
      (Some (31 / 5)) (1 / 2) 5
   = Inr ([[1, 0, 0], [0, 3, 0]], [0, 1], [5, 11 / 2, 6]) \<and>
   [0, 1] = [0..<Max (set [0, 0, 1, 1, 1, 1 :: nat]) + 1] \<and>
   length [[1, 0, 0], [0, 3, 0 :: real]] = Max (set [0, 0, 1, 1, 1, 1 :: nat]) + 1 \<and>
   arange 5 (31 / 5) (1 / 2) = Inr [5, 11 / 2, 6]"
  using bin_trains_counts [OF bin_trains_example2, of "31 / 5"] bin_trains_example2
  by simp

text \<open>
  Claim C8 (the code differs). The claim counts over the half-open range
  \<open>[start_time, max_time)\<close>, and the comment in the code says that it removes the spikes
  that happened before the start time. With \<open>start_time = 5\<close>, \<open>max_time = 6\<close> and bin
  edges 5 and 5.5, the two spikes of cell 0 at 5 and 5.2 both lie in that range and in
  bin 0, which starts at 5; yet the entry is 1: the filter \<^verbatim>\<open>ts>start_time\<close> has also
  removed the spike at exactly 5.
\<close>

theorem bin_trains_spike_at_start_time:
  "bin_trains (\<lambda>i k. 0) [5, 26 / 5] [0, 0] (Some 6) (1 / 2) 5 = Inr ([[1, 0]], [0], [5, 11 / 2]) \<and>
   length (filter (\<lambda>(time, i). i = 0 \<and> 5 \<le> time \<and> time < 6 \<and> 5 \<le> time \<and> time < 11 / 2)
             (zip [5, 26 / 5 :: real] [0, 0 :: nat])) = 2"
  by (simp add: bin_trains_def arange_def np_empty_def histogram_def bin_count_def upt_conv_Cons)

section \<open>Multi-probe concatenation\<close>


lemma assign_uuids_Cons:
  "assign_uuids u (m # ms) =
     (m\<lparr>m_uuid := Some u\<rparr> # fst (assign_uuids (Suc u) ms), snd (assign_uuids (Suc u) ms))"
  by (simp add: uuid4_def Let_def split: prod.splits)



lemma assign_uuids_rows:
  "map (\<lambda>m. m\<lparr>m_uuid := None\<rparr>) (fst (assign_uuids u ms)) = map (\<lambda>m. m\<lparr>m_uuid := None\<rparr>) ms"
  by (induction ms arbitrary: u) (simp_all add: assign_uuids_Cons del: assign_uuids.simps(2))

lemma assign_uuids_length: "length (fst (assign_uuids u ms)) = length ms"
  using arg_cong [OF assign_uuids_rows, of length u ms] by simp

























text \<open>With no table at all \<^verbatim>\<open>pd.concat\<close> raises, and so does the function.\<close>

lemma concatenate_probes_no_probe:
  "concatenate_probes [] [] [] u = Inl ValueError"
  by (simp add: concatenate_probes_def)

lemma concatenate_probes_example2:
  "map (\<lambda>m. (m_probe m, m_depth m, m_cell_id m))
     (case concatenate_probes [[spike 1 3 30, spike 2 4 10], [spike 3 3 20]]
        [[metric 3 0 0 1 30, metric 4 0 0 1 10], [metric 3 0 0 1 20]] [''imec0'', ''imec1''] 0 of
        Inl e \<Rightarrow> [] | Inr (spikes, metrics) \<Rightarrow> metrics)
   = [(Some ''imec0'', 10, Some 0), (Some ''imec0'', 30, Some 1), (Some ''imec1'', 20, Some 2)]"
  by (simp add: concatenate_probes_def spike_def metric_def reset_index_def merge_on_uuid_def
      probe_depth_key_def merge_uuid_def uuid4_def upt_conv_Cons less_eq_char_def less_char_def)


section \<open>Further properties of the code\<close>

lemma filter_key_unique:
  assumes "distinct ks" "i0 < length ks"
  shows "filter (\<lambda>(i, c, d). c = ks ! i0) (zip [0..<length ks] (map (\<lambda>c. (c, g c)) ks))
           = [(i0, ks ! i0, g (ks ! i0))]"
proof -
  have "filter (\<lambda>i. ks ! i = ks ! i0) [0..<length ks] = filter (\<lambda>i. i = i0) [0..<length ks]"
    using assms by (intro filter_cong) (auto simp: nth_eq_iff_index_eq)
  then show ?thesis
    using assms(2) by (simp add: zip_upt_map filter_map o_def filter_eq_upt)
qed

lemma sorted_distinct_rank:
  assumes "sorted xs" "distinct xs" "i < length xs"
  shows "length (filter (\<lambda>c. c < xs ! i) xs) = i"
proof -
  have sw: "sorted_wrt (<) xs" using assms(1,2) by (simp add: strict_sorted_iff)
  have a: "filter (\<lambda>c. c < xs ! i) (take i xs) = take i xs"
  proof (rule filter_True, clarify)
    fix c assume "c \<in> set (take i xs)"
    then obtain j where "j < i" "c = xs ! j" using assms(3) by (auto simp: in_set_conv_nth)
    then show "c < xs ! i" using sw assms(3) by (simp add: sorted_wrt_nth_less)
  qed
  have b: "filter (\<lambda>c. c < xs ! i) (drop i xs) = []"
  proof (rule filter_False, clarify)
    fix c assume "c \<in> set (drop i xs)" "c < xs ! i"
    then obtain k where "k < length (drop i xs)" "c = drop i xs ! k"
      by (auto simp: in_set_conv_nth)
    then have "i \<le> i + k" "i + k < length xs" "c = xs ! (i + k)" by simp_all
    then obtain j where "i \<le> j" "j < length xs" "c = xs ! j" by blast
    then have "xs ! i \<le> c" using assms(1) by (simp add: sorted_iff_nth_mono)
    with \<open>c < xs ! i\<close> show False by simp
  qed
  have "filter (\<lambda>c. c < xs ! i) xs
        = filter (\<lambda>c. c < xs ! i) (take i xs) @ filter (\<lambda>c. c < xs ! i) (drop i xs)"
    by (simp flip: filter_append)
  then show ?thesis using a b assms(3) by simp
qed

text \<open>
  What \<^verbatim>\<open>resort_by_depth\<close> computes, for every spikes table: each row keeps its place and
  its other columns, and its new \<^verbatim>\<open>cell_id\<close> is the number of distinct cluster ids of the
  table below its own, that is, the rank of its cluster id. The depths play no part.
\<close>

lemma resort_by_depth_eq:
  "resort_by_depth spikes =
     map (\<lambda>r. r\<lparr>cell_id := length (filter (\<lambda>c. c < cluster_id r)
                                  (sort (remdups (map cluster_id spikes))))\<rparr>) spikes"
proof -
  define keys where "keys = sort (remdups (map cluster_id spikes))"
  define g where "g = (\<lambda>c. sum_list (map depth (filter (\<lambda>r. cluster_id r = c) spikes))
                    / real (length (filter (\<lambda>r. cluster_id r = c) spikes)))"
  define Z where "Z = reset_index (map (\<lambda>c. (c, g c)) keys)"
  define dd where "dd = map (\<lambda>(i, c, d). (i, c)) (sort_key (\<lambda>(i, c, d). d) Z)"
  have dk: "distinct keys" "sorted keys" "set keys = cluster_id ` set spikes"
    by (simp_all add: keys_def)
  have gm: "groupby_mean_depth spikes = map (\<lambda>c. (c, g c)) keys"
    by (simp add: groupby_mean_depth_def keys_def g_def)
  have id1: "map (\<lambda>(i, c, d). (i, c, d)) xs = xs" for xs :: "(nat \<times> nat \<times> real) list"
    by (induction xs) auto
  have id2: "map (\<lambda>(new, i, c, d). (i, c, d)) (reset_index xs) = xs"
    for xs :: "(nat \<times> nat \<times> real) list"
    by (rule nth_equalityI) (simp_all add: reset_index_def)
  have rd: "resort_by_depth spikes = merge_cell_id spikes dd"
    unfolding resort_by_depth_def Let_def gm id1 id2 dd_def Z_def ..
  have one: "map (\<lambda>(cell, c). r\<lparr>cell_id := cell\<rparr>) (filter (\<lambda>(cell, c). c = cluster_id r) dd)
        = [r\<lparr>cell_id := length (filter (\<lambda>c. c < cluster_id r) keys)\<rparr>]"
    if r: "r \<in> set spikes" for r
  proof -
    from r dk(3) have "cluster_id r \<in> set keys" by simp
    then obtain i0 where i0: "i0 < length keys" "keys ! i0 = cluster_id r"
      unfolding in_set_conv_nth by blast
    have "filter (\<lambda>(cell, c). c = cluster_id r) dd
        = map (\<lambda>(i, c, d). (i, c))
            (sort_key (\<lambda>(i, c, d). d) (filter (\<lambda>(i, c, d). c = keys ! i0) Z))"
    proof -
      have c: "(\<lambda>(cell, c). c = cluster_id r) \<circ> (\<lambda>(i, c, d). (i, c))
            = (\<lambda>(i, c, d). c = keys ! i0)"
        by (auto simp: i0(2))
      show ?thesis
        unfolding dd_def filter_map filter_sort c ..
    qed
    also have "\<dots> = [(i0, cluster_id r)]"
      unfolding Z_def reset_index_def length_map filter_key_unique [OF dk(1) i0(1)]
      by (simp add: i0(2))
    finally have "filter (\<lambda>(cell, c). c = cluster_id r) dd = [(i0, cluster_id r)]" .
    moreover have "length (filter (\<lambda>c. c < cluster_id r) keys) = i0"
      using sorted_distinct_rank [OF dk(2,1) i0(1)] i0(2) by simp
    ultimately show ?thesis by simp
  qed
  have "merge_cell_id spikes dd
      = concat (map (\<lambda>r. [r\<lparr>cell_id := length (filter (\<lambda>c. c < cluster_id r) keys)\<rparr>]) spikes)"
    unfolding merge_cell_id_def using one by (intro arg_cong [where f = concat] map_cong) simp_all
  also have "\<dots> = map (\<lambda>r. r\<lparr>cell_id := length (filter (\<lambda>c. c < cluster_id r) keys)\<rparr>) spikes"
    by (induction spikes) simp_all
  finally show ?thesis by (simp add: rd keys_def)
qed

text \<open>
  Re-ranking, column by column: the new \<^verbatim>\<open>cell_id\<close> of a row is the rank of its cluster
  id among the cluster ids of the table; cluster ids and depths are unchanged.
\<close>

theorem resort_by_depth_ranks_cluster_id:
  "map cell_id (resort_by_depth spikes) =
     map (\<lambda>r. length (filter (\<lambda>c. c < cluster_id r) (sort (remdups (map cluster_id spikes)))))
       spikes \<and>
   map cluster_id (resort_by_depth spikes) = map cluster_id spikes \<and>
   map depth (resort_by_depth spikes) = map depth spikes"
  unfolding resort_by_depth_eq by (simp add: o_def)

text \<open>
  After the re-ranking the cell ids are exactly the range \<open>[0, M)\<close>, for \<open>M\<close> clusters.
\<close>

theorem resort_by_depth_contiguous:
  "cell_id ` set (resort_by_depth spikes) = {0..<card (cluster_id ` set spikes)}"
proof -
  define keys where "keys = sort (remdups (map cluster_id spikes))"
  have dk: "distinct keys" "sorted keys" "set keys = cluster_id ` set spikes"
    by (simp_all add: keys_def)
  have lk: "length keys = card (cluster_id ` set spikes)"
    using distinct_card [OF dk(1)] dk(3) by simp
  have "cell_id ` set (resort_by_depth spikes)
      = (\<lambda>c. length (filter (\<lambda>c'. c' < c) keys)) ` set keys"
    unfolding resort_by_depth_eq dk(3) keys_def [symmetric]
    by (simp add: image_image)
  also have "\<dots> = {0..<length keys}"
  proof (rule set_eqI)
    fix i
    show "i \<in> (\<lambda>c. length (filter (\<lambda>c'. c' < c) keys)) ` set keys \<longleftrightarrow> i \<in> {0..<length keys}"
    proof
      assume "i \<in> (\<lambda>c. length (filter (\<lambda>c'. c' < c) keys)) ` set keys"
      then obtain c where c: "c \<in> set keys" "i = length (filter (\<lambda>c'. c' < c) keys)"
        by (rule imageE)
      from c(1) obtain j where j: "j < length keys" "keys ! j = c"
        unfolding in_set_conv_nth by blast
      have "length (filter (\<lambda>c'. c' < keys ! j) keys) = j"
        by (rule sorted_distinct_rank [OF dk(2,1) j(1)])
      then show "i \<in> {0..<length keys}" using c(2) j by simp
    next
      assume "i \<in> {0..<length keys}"
      then have i: "i < length keys" by simp
      have "length (filter (\<lambda>c'. c' < keys ! i) keys) = i"
        by (rule sorted_distinct_rank [OF dk(2,1) i])
      then show "i \<in> (\<lambda>c. length (filter (\<lambda>c'. c' < c) keys)) ` set keys"
        using i by (intro image_eqI [where x = "keys ! i"]) simp_all
    qed
  qed
  finally show ?thesis by (simp add: lk)
qed

text \<open>
  On a float-typed signal the clock aligner produces a time vector of the signal's
  length whenever at least one onset is detected, the number of timestamps equals the number of onsets and the sample
  rate is not zero.
\<close>

theorem get_tvec_returns:
  assumes "binary_onsets x 1 = Inr (ons, offs)" "ons \<noteq> []" "length tss = length ons" "sr \<noteq> 0"
  shows "\<exists>tvec. get_tvec Float64 garbage x tss sr = Inr tvec \<and> length tvec = length x"
proof -
  from binary_onsets_range [OF assms(1)] have so: "sorted_wrt (<) ons"
    and bx: "\<forall>i\<in>set ons. Suc i < length x" by simp_all
  let ?m = "length ons - 1"
  have m: "?m < length ons" using assms(2) by (cases ons) auto
  have lo: "last ons = ons ! ?m" using assms(2) by (simp add: last_conv_nth)
  have "ons ! ?m \<in> set ons" using m by simp
  then have om: "Suc (ons ! ?m) < length x" using bx by blast
  have o0: "ons ! 0 \<le> ons ! ?m" using so m by (simp add: strict_sorted_nth_mono)
  have lS: "length (segs ons tss ?m) = ons ! ?m - ons ! 0" by (rule length_segs [OF so m])
  show ?thesis
    unfolding get_tvec_closed [OF assms]
    using o0 om lS lo by (simp add: length_linspace)
qed

text \<open>Witness: two pulses, two timestamps, sample rate 2.\<close>

theorem get_tvec_returns_witness:
  "binary_onsets [0, 0, 0, 2, 2, 0, 2, 0] 1 = Inr ([2, 5], [4, 6]) \<and> [2, 5 :: nat] \<noteq> [] \<and>
   length [10, 11 :: real] = length [2, 5 :: nat] \<and> (2 :: real) \<noteq> 0 \<and>
   (\<exists>tvec. get_tvec Float64 [] [0, 0, 0, 2, 2, 0, 2, 0] [10, 11] 2 = Inr tvec \<and>
      length tvec = length [0, 0, 0, 2, 2, 0, 2, 0 :: real])"
proof -
  have b: "binary_onsets [0, 0, 0, 2, 2, 0, 2, 0] 1 = Inr ([2, 5], [4, 6])"
    by (simp add: binary_onsets_def astype_int_def where_eq_Cons where_eq_def)
  from get_tvec_returns [OF b, of "[10, 11]" 2 "[]"] b show ?thesis by simp
qed

text \<open>Witness for the rotation \<open>remap_time_basis_rotates\<close> of a signal remapped onto itself.\<close>

theorem remap_time_basis_rotates_witness:
  "[10, 20, 30 :: real] \<noteq> [] \<and> length [10, 20, 30 :: real] = length [1, 2, 3 :: real] \<and>
   sorted_wrt (<) [1, 2, 3 :: real] \<and>
   remap_time_basis [10, 20, 30 :: real] [1, 2, 3] [1, 2, 3] = Inr (last [10, 20, 30] # butlast [10, 20, 30])"
  using remap_time_basis_rotates [of "[10, 20, 30 :: real]" "[1, 2, 3]"] by simp

end
